theory Spec2Isabelle
  imports Complex_Main "HOL-Library.Sublist"
begin

section \<open>Python values, exceptions and the numeric primitives\<close>

text \<open>
  The module \<open>hw1/optimization.py\<close> computes with NumPy arrays and floats. Nothing in the
  properties below depends on how a floating-point operation rounds, so the scalars \<open>'s\<close>
  and the arrays \<open>'v\<close> are type parameters, and every primitive the module calls is a field
  of a record that the functions take as an argument. A primitive that can raise returns
  \<open>exn + 'a\<close>, with \<open>Inl\<close> the exception (after \<open>np.seterr(all='raise')\<close> an overflow, an
  invalid operation or a division by zero inside NumPy raises \<open>FloatingPointError\<close>).
\<close>

datatype exn = FloatingPointError | LinAlgError | TypeError | ValueError

definition bnd :: "exn + 'a \<Rightarrow> ('a \<Rightarrow> exn + 'b) \<Rightarrow> exn + 'b" where
  "bnd m f = (case m of Inl e \<Rightarrow> Inl e | Inr v \<Rightarrow> f v)"

text \<open>
  The value \<open>scipy.optimize.line_search\<close> hands back. The module compares the whole value
  with \<open>None\<close> and otherwise reads its component 0, which SciPy documents as
  "float or None": \<open>None\<close> when the search did not converge. The other components of the
  tuple are never read.
\<close>

datatype 's search_result = ResNone | ResTuple "'s option"

record ('s, 'v, 'm) smooth_oracle =
  func :: "'v \<Rightarrow> exn + 's"
  grad :: "'v \<Rightarrow> exn + 'v"
  hess :: "'v \<Rightarrow> exn + 'm"

record ('s, 'v) numpy =
  np_lit :: "real \<Rightarrow> 's"
  np_smul :: "'s \<Rightarrow> 'v \<Rightarrow> exn + 'v"
  np_vadd :: "'v \<Rightarrow> 'v \<Rightarrow> exn + 'v"
  np_neg :: "'v \<Rightarrow> exn + 'v"
  np_dot :: "'v \<Rightarrow> 'v \<Rightarrow> exn + 's"
  np_norm :: "'v \<Rightarrow> exn + 's"
  f_mul :: "'s \<Rightarrow> 's \<Rightarrow> exn + 's"
  f_add :: "'s \<Rightarrow> 's \<Rightarrow> exn + 's"
  f_div :: "'s \<Rightarrow> 's \<Rightarrow> exn + 's"
  f_le :: "'s \<Rightarrow> 's \<Rightarrow> exn + bool"
  np_isnan :: "'s \<Rightarrow> bool"
  np_any_isinf :: "'v \<Rightarrow> bool"
  np_size :: "'v \<Rightarrow> nat"
  scalar_search_wolf2 ::
    "('v \<Rightarrow> exn + 's) \<Rightarrow> ('v \<Rightarrow> exn + 'v) \<Rightarrow> 'v \<Rightarrow> 'v \<Rightarrow> 's \<Rightarrow> 's \<Rightarrow> exn + 's search_result"
  time_time :: "nat \<Rightarrow> real"

section \<open>LineSearchTool\<close>

text \<open>
  \<open>__init__\<close> stores \<open>_method\<close> and, depending on it, the attributes \<open>c1, c2, alpha_0\<close>,
  \<open>c1, alpha_0\<close> or \<open>c\<close>; any other method name raises. An object that exists is therefore
  one of three shapes.
\<close>

datatype 's LineSearchTool =
    Wolfe (c1: 's) (c2: 's) (alpha_0: 's)
  | Armijo (c1: 's) (alpha_0: 's)
  | Constant (c: 's)

definition phi ::
  "('s, 'v, 'm) smooth_oracle \<Rightarrow> ('s, 'v) numpy \<Rightarrow> 'v \<Rightarrow> 'v \<Rightarrow> 's \<Rightarrow> exn + 's" where
  "phi orc np x_k d_k a =
     bnd (np_smul np a d_k) (\<lambda>ad.
     bnd (np_vadd np x_k ad) (\<lambda>y.
     func orc y))"

definition phi_derivative ::
  "('s, 'v, 'm) smooth_oracle \<Rightarrow> ('s, 'v) numpy \<Rightarrow> 'v \<Rightarrow> 'v \<Rightarrow> 's \<Rightarrow> exn + 's" where
  "phi_derivative orc np x_k d_k a =
     bnd (np_smul np a d_k) (\<lambda>ad.
     bnd (np_vadd np x_k ad) (\<lambda>y.
     bnd (grad orc y) (\<lambda>g.
     np_dot np g d_k)))"

text \<open>
  \<open>phi(a) <= phi(0) + self.c1 * a * phi_derivative(0)\<close>, the operands in Python's order of
  evaluation. With \<open>display\<close> set the function first prints the same two sides, computed in
  the same order by the same stateless oracle, so the flag does not change the outcome
  and is left out.
\<close>

definition armijo_condition ::
  "('s, 'v, 'm) smooth_oracle \<Rightarrow> ('s, 'v) numpy \<Rightarrow> 's \<Rightarrow> 'v \<Rightarrow> 'v \<Rightarrow> 's \<Rightarrow> exn + bool" where
  "armijo_condition orc np c1' x_k d_k a =
     bnd (phi orc np x_k d_k a) (\<lambda>lhs.
     bnd (phi orc np x_k d_k (np_lit np 0)) (\<lambda>phi0.
     bnd (f_mul np c1' a) (\<lambda>c1a.
     bnd (phi_derivative orc np x_k d_k (np_lit np 0)) (\<lambda>dphi0.
     bnd (f_mul np c1a dphi0) (\<lambda>slope.
     bnd (f_add np phi0 slope) (\<lambda>rhs.
     f_le np lhs rhs))))))"

text \<open>\<open>a = self.alpha_0 if previous_alpha is None else 2 * previous_alpha\<close>\<close>

definition armijo_start ::
  "('s, 'v) numpy \<Rightarrow> 's \<Rightarrow> 's option \<Rightarrow> exn + 's" where
  "armijo_start np alpha0 previous_alpha =
     (case previous_alpha of
        None \<Rightarrow> Inr alpha0
      | Some p \<Rightarrow> f_mul np (np_lit np 2) p)"

text \<open>
  \<open>while not armijo_condition(a): a /= 2\<close>. The loop has no bound; a run that never
  leaves it is the value \<open>None\<close>.
\<close>

partial_function (option) armijo_while ::
  "('s, 'v, 'm) smooth_oracle \<Rightarrow> ('s, 'v) numpy \<Rightarrow> 's \<Rightarrow> 'v \<Rightarrow> 'v \<Rightarrow> 's \<Rightarrow> (exn + 's) option" where
  "armijo_while orc np c1' x_k d_k a =
     (case armijo_condition orc np c1' x_k d_k a of
        Inl e \<Rightarrow> Some (Inl e)
      | Inr ok \<Rightarrow>
          if ok then Some (Inr a)
          else (case f_div np a (np_lit np 2) of
                  Inl e \<Rightarrow> Some (Inl e)
                | Inr a' \<Rightarrow> armijo_while orc np c1' x_k d_k a'))"

declare armijo_while.simps [code]

definition armijo ::
  "('s, 'v, 'm) smooth_oracle \<Rightarrow> ('s, 'v) numpy \<Rightarrow> 's \<Rightarrow> 's \<Rightarrow> 'v \<Rightarrow> 'v \<Rightarrow> 's option
     \<Rightarrow> (exn + 's) option" where
  "armijo orc np c1' alpha0 x_k d_k previous_alpha =
     (case armijo_start np alpha0 previous_alpha of
        Inl e \<Rightarrow> Some (Inl e)
      | Inr a \<Rightarrow> armijo_while orc np c1' x_k d_k a)"

text \<open>
  \<open>line_search\<close>. The result is \<open>None\<close> when the call does not return, \<open>Some (Inl e)\<close> when
  it raises \<open>e\<close>, and \<open>Some (Inr r)\<close> when it returns the Python value \<open>r\<close>: a float
  \<open>Some a\<close> or Python's \<open>None\<close>.
\<close>

definition line_search ::
  "('s, 'v, 'm) smooth_oracle \<Rightarrow> ('s, 'v) numpy \<Rightarrow> 's LineSearchTool \<Rightarrow> 'v \<Rightarrow> 'v \<Rightarrow> 's option
     \<Rightarrow> (exn + 's option) option" where
  "line_search orc np tool x_k d_k previous_alpha =
     (case tool of
        Wolfe wc1 wc2 walpha0 \<Rightarrow>
          (case scalar_search_wolf2 np (func orc) (grad orc) x_k d_k wc1 wc2 of
             Inl e \<Rightarrow> Some (Inl e)
           | Inr ResNone \<Rightarrow>
               map_option (map_sum id Some) (armijo orc np wc1 walpha0 x_k d_k previous_alpha)
           | Inr (ResTuple a0) \<Rightarrow> Some (Inr a0))
      | Armijo ac1 aalpha0 \<Rightarrow>
          map_option (map_sum id Some) (armijo orc np ac1 aalpha0 x_k d_k previous_alpha)
      | Constant cc \<Rightarrow> Some (Inr (Some cc)))"

section \<open>Building the tool from the caller's options\<close>

text \<open>
  The values a caller can pass as \<open>line_search_options\<close>. A dict is written as the
  docstrings describe it: the entry \<open>'method'\<close>, when present, is a string, and every
  other entry is a number; \<open>cls(**options)\<close> binds the first to \<open>method\<close> and collects the
  others in \<open>kwargs\<close>.
\<close>

datatype 's pyval =
    PyNone
  | PyBool bool
  | PyInt int
  | PyStr string
  | PyDict "string option" "(string \<times> 's) list"
  | PyTool "'s LineSearchTool"

text \<open>Python's truth value of an object, as \<open>if line_search_options:\<close> tests it.\<close>

fun truthy :: "'s pyval \<Rightarrow> bool" where
  "truthy PyNone = False"
| "truthy (PyBool b) = b"
| "truthy (PyInt i) = (i \<noteq> 0)"
| "truthy (PyStr s) = (s \<noteq> [])"
| "truthy (PyDict m kwargs) = (m \<noteq> None \<or> kwargs \<noteq> [])"
| "truthy (PyTool t) = True"

text \<open>\<open>kwargs.get(key, default)\<close>\<close>

definition kwargs_get :: "(string \<times> 's) list \<Rightarrow> string \<Rightarrow> 's \<Rightarrow> 's" where
  "kwargs_get kwargs k d = (case map_of kwargs k of None \<Rightarrow> d | Some v \<Rightarrow> v)"

definition LineSearchTool_init ::
  "('s, 'v) numpy \<Rightarrow> string \<Rightarrow> (string \<times> 's) list \<Rightarrow> exn + 's LineSearchTool" where
  "LineSearchTool_init np method kwargs =
     (if method = ''Wolfe'' then
        Inr (Wolfe (kwargs_get kwargs ''c1'' (np_lit np (1 / 10000)))
                   (kwargs_get kwargs ''c2'' (np_lit np (9 / 10)))
                   (kwargs_get kwargs ''alpha_0'' (np_lit np 1)))
      else if method = ''Armijo'' then
        Inr (Armijo (kwargs_get kwargs ''c1'' (np_lit np (1 / 10000)))
                    (kwargs_get kwargs ''alpha_0'' (np_lit np 1)))
      else if method = ''Constant'' then
        Inr (Constant (kwargs_get kwargs ''c'' (np_lit np 1)))
      else Inl ValueError)"

definition from_dict :: "('s, 'v) numpy \<Rightarrow> 's pyval \<Rightarrow> exn + 's LineSearchTool" where
  "from_dict np options =
     (case options of
        PyDict m kwargs \<Rightarrow>
          LineSearchTool_init np (case m of None \<Rightarrow> ''Wolfe'' | Some name \<Rightarrow> name) kwargs
      | _ \<Rightarrow> Inl TypeError)"

definition get_line_search_tool ::
  "('s, 'v) numpy \<Rightarrow> 's pyval \<Rightarrow> exn + 's LineSearchTool" where
  "get_line_search_tool np line_search_options =
     (if truthy line_search_options then
        (case line_search_options of
           PyTool t \<Rightarrow> Inr t
         | _ \<Rightarrow> from_dict np line_search_options)
      else LineSearchTool_init np ''Wolfe'' [])"

section \<open>The trace\<close>

text \<open>
  \<open>history\<close> is a \<open>defaultdict(list)\<close>: a key exists once it has been looked up. A field is
  \<open>None\<close> while its key is absent.
\<close>

record ('s, 'v) history =
  h_time :: "real list option"
  h_func :: "'s list option"
  h_grad_norm :: "'s list option"
  h_x :: "'v list option"

definition empty_history :: "('s, 'v) history" where
  "empty_history = \<lparr>h_time = None, h_func = None, h_grad_norm = None, h_x = None\<rparr>"

text \<open>\<open>history[key]\<close>: the list stored under the key, a new empty one when there is none.\<close>

definition dd_get :: "'a list option \<Rightarrow> 'a list" where
  "dd_get e = (case e of None \<Rightarrow> [] | Some l \<Rightarrow> l)"

text \<open>
  \<open>extend_history\<close>. In \<open>history[key].append(e)\<close> Python looks the key up, which creates
  it, before it evaluates \<open>e\<close>; so a key can exist although \<open>e\<close> raised. The result is the
  exception raised, if any, and the dict as the call leaves it. \<open>time.time()\<close> is read once
  on entry of the optimizer and once for each element of \<open>history['time']\<close>, so the reading
  appended to a list of length \<open>n\<close> is reading number \<open>n + 1\<close>.
\<close>

definition extend_history ::
  "('s, 'v, 'm) smooth_oracle \<Rightarrow> ('s, 'v) numpy \<Rightarrow> ('s, 'v) history option \<Rightarrow> 'v
     \<Rightarrow> exn option \<times> ('s, 'v) history option" where
  "extend_history orc np history x_k =
     (case history of
        None \<Rightarrow> (None, None)
      | Some h \<Rightarrow>
          (case grad orc x_k of
             Inl e \<Rightarrow> (Some e, Some h)
           | Inr g_k \<Rightarrow>
               let t = dd_get (h_time h);
                   h1 = h\<lparr>h_time := Some (t @ [time_time np (Suc (length t)) - time_time np 0])\<rparr>;
                   h2 = h1\<lparr>h_func := Some (dd_get (h_func h1))\<rparr>
               in (case func orc x_k of
                     Inl e \<Rightarrow> (Some e, Some h2)
                   | Inr f \<Rightarrow>
                       let h3 = h2\<lparr>h_func := Some (dd_get (h_func h2) @ [f])\<rparr>;
                           h4 = h3\<lparr>h_grad_norm := Some (dd_get (h_grad_norm h3))\<rparr>
                       in (case np_norm np g_k of
                             Inl e \<Rightarrow> (Some e, Some h4)
                           | Inr n \<Rightarrow>
                               let h5 = h4\<lparr>h_grad_norm := Some (dd_get (h_grad_norm h4) @ [n])\<rparr>
                               in if np_size np x_k \<le> 2
                                  then (None, Some (h5\<lparr>h_x := Some (dd_get (h_x h5) @ [x_k])\<rparr>))
                                  else (None, Some h5)))))"

section \<open>gradient\_descent\<close>

definition time_to_stop ::
  "('s, 'v, 'm) smooth_oracle \<Rightarrow> ('s, 'v) numpy \<Rightarrow> 'v \<Rightarrow> 's \<Rightarrow> 'v \<Rightarrow> exn + bool" where
  "time_to_stop orc np x_0 tolerance x_k =
     bnd (grad orc x_0) (\<lambda>g_0.
     bnd (grad orc x_k) (\<lambda>g_k.
     bnd (np_norm np g_k) (\<lambda>norm_k.
     bnd (np_norm np g_0) (\<lambda>norm_0.
     bnd (f_mul np tolerance norm_0) (\<lambda>bound.
     f_le np norm_k bound)))))"

text \<open>The variables the loop carries from one iteration to the next.\<close>

record ('s, 'v) gd_state =
  cur_x :: 'v
  cur_a :: "'s option"
  cur_history :: "('s, 'v) history option"

text \<open>
  How a piece of the \<open>try\<close> block ends: it returns a triple, or it raises with the trace
  as it is at that moment (the \<open>except\<close> clause returns that very dict).
\<close>

datatype ('s, 'v) outcome =
    Return 'v string "('s, 'v) history option"
  | Raise exn "('s, 'v) history option"

datatype ('s, 'v) step = Continue "('s, 'v) gd_state" | Stop "('s, 'v) outcome"

text \<open>
  One pass through the body of \<open>for _ in range(max_iter)\<close>. \<open>None\<close>: the line search
  does not return. A step that is Python's \<open>None\<close> becomes NaN under
  \<open>np.array(a_k).astype(np.float64)\<close>, so it takes the first of the three early returns.
\<close>

definition gd_body ::
  "('s, 'v, 'm) smooth_oracle \<Rightarrow> ('s, 'v) numpy \<Rightarrow> 's LineSearchTool \<Rightarrow> 'v \<Rightarrow> 's
     \<Rightarrow> ('s, 'v) gd_state \<Rightarrow> ('s, 'v) step option" where
  "gd_body orc np tool x_0 tolerance s =
     (case extend_history orc np (cur_history s) (cur_x s) of
        (Some e, h) \<Rightarrow> Some (Stop (Raise e h))
      | (None, h) \<Rightarrow>
     (case time_to_stop orc np x_0 tolerance (cur_x s) of
        Inl e \<Rightarrow> Some (Stop (Raise e h))
      | Inr stop \<Rightarrow>
     if stop then Some (Stop (Return (cur_x s) ''success'' h)) else
     (case grad orc (cur_x s) of
        Inl e \<Rightarrow> Some (Stop (Raise e h))
      | Inr g_k \<Rightarrow>
     (case np_neg np g_k of
        Inl e \<Rightarrow> Some (Stop (Raise e h))
      | Inr d_k \<Rightarrow>
     (case line_search orc np tool (cur_x s) d_k (cur_a s) of
        None \<Rightarrow> None
      | Some (Inl e) \<Rightarrow> Some (Stop (Raise e h))
      | Some (Inr None) \<Rightarrow> Some (Stop (Return (cur_x s) ''a_k computational_error'' h))
      | Some (Inr (Some a)) \<Rightarrow>
     if np_isnan np a then Some (Stop (Return (cur_x s) ''a_k computational_error'' h))
     else if np_any_isinf np (cur_x s)
       then Some (Stop (Return (cur_x s) ''x_k computational_error'' h))
     else if np_any_isinf np d_k
       then Some (Stop (Return (cur_x s) ''d_k computational_error'' h))
     else
     (case np_smul np a d_k of
        Inl e \<Rightarrow> Some (Stop (Raise e h))
      | Inr ad \<Rightarrow>
     (case np_vadd np (cur_x s) ad of
        Inl e \<Rightarrow> Some (Stop (Raise e h))
      | Inr x' \<Rightarrow>
          Some (Continue \<lparr>cur_x = x', cur_a = Some a, cur_history = h\<rparr>))))))))"

text \<open>The statements after the loop.\<close>

definition gd_final ::
  "('s, 'v, 'm) smooth_oracle \<Rightarrow> ('s, 'v) numpy \<Rightarrow> 'v \<Rightarrow> 's
     \<Rightarrow> ('s, 'v) gd_state \<Rightarrow> ('s, 'v) outcome" where
  "gd_final orc np x_0 tolerance s =
     (case extend_history orc np (cur_history s) (cur_x s) of
        (Some e, h) \<Rightarrow> Raise e h
      | (None, h) \<Rightarrow>
     (case time_to_stop orc np x_0 tolerance (cur_x s) of
        Inl e \<Rightarrow> Raise e h
      | Inr stop \<Rightarrow>
          if stop then Return (cur_x s) ''success'' h
          else Return (cur_x s) ''iterations_exceeded'' h))"

text \<open>The loop with \<open>n\<close> iterations still to run, then the statements after it.\<close>

fun gd_loop ::
  "('s, 'v, 'm) smooth_oracle \<Rightarrow> ('s, 'v) numpy \<Rightarrow> 's LineSearchTool \<Rightarrow> 'v \<Rightarrow> 's
     \<Rightarrow> nat \<Rightarrow> ('s, 'v) gd_state \<Rightarrow> ('s, 'v) outcome option" where
  "gd_loop orc np tool x_0 tolerance 0 s = Some (gd_final orc np x_0 tolerance s)"
| "gd_loop orc np tool x_0 tolerance (Suc n) s =
     (case gd_body orc np tool x_0 tolerance s of
        None \<Rightarrow> None
      | Some (Stop r) \<Rightarrow> Some r
      | Some (Continue s') \<Rightarrow> gd_loop orc np tool x_0 tolerance n s')"

text \<open>
  The \<open>try\<close> block: \<open>get_line_search_tool\<close>, \<open>x_k = np.copy(x_0)\<close>, \<open>a_k = None\<close>, the loop.
  \<open>range(max_iter)\<close> is empty for \<open>max_iter \<le> 0\<close>.
\<close>

definition gd_init :: "'v \<Rightarrow> ('s, 'v) history option \<Rightarrow> ('s, 'v) gd_state" where
  "gd_init x_0 history = \<lparr>cur_x = x_0, cur_a = None, cur_history = history\<rparr>"

definition gd_try ::
  "('s, 'v, 'm) smooth_oracle \<Rightarrow> ('s, 'v) numpy \<Rightarrow> 'v \<Rightarrow> 's \<Rightarrow> int \<Rightarrow> 's pyval
     \<Rightarrow> ('s, 'v) history option \<Rightarrow> ('s, 'v) outcome option" where
  "gd_try orc np x_0 tolerance max_iter line_search_options history =
     (case get_line_search_tool np line_search_options of
        Inl e \<Rightarrow> Some (Raise e history)
      | Inr tool \<Rightarrow>
          gd_loop orc np tool x_0 tolerance (nat max_iter) (gd_init x_0 history))"

text \<open>
  \<open>gradient_descent\<close>: \<open>None\<close> when the call does not return, \<open>Some (Inl e)\<close> when the
  exception \<open>e\<close> reaches the caller, \<open>Some (Inr (x, message, history))\<close> when it returns.
  Only \<open>FloatingPointError\<close> is caught.
\<close>

definition gradient_descent ::
  "('s, 'v, 'm) smooth_oracle \<Rightarrow> ('s, 'v) numpy \<Rightarrow> 'v \<Rightarrow> 's \<Rightarrow> int \<Rightarrow> 's pyval \<Rightarrow> bool
     \<Rightarrow> (exn + 'v \<times> string \<times> ('s, 'v) history option) option" where
  "gradient_descent orc np x_0 tolerance max_iter line_search_options trace =
     (case gd_try orc np x_0 tolerance max_iter line_search_options
             (if trace then Some empty_history else None) of
        None \<Rightarrow> None
      | Some (Return x message h) \<Rightarrow> Some (Inr (x, message, h))
      | Some (Raise e h) \<Rightarrow>
          if e = FloatingPointError then Some (Inr (x_0, ''computational_error'', h))
          else Some (Inl e))"

section \<open>newton\<close>

text \<open>
  The body of \<open>newton\<close> is three assignments and \<open>return x_k, 'success', history\<close>; the
  method itself is a TODO comment. There is no \<open>try\<close> here, so an exception of
  \<open>get_line_search_tool\<close> reaches the caller.
\<close>

definition newton ::
  "('s, 'v, 'm) smooth_oracle \<Rightarrow> ('s, 'v) numpy \<Rightarrow> 'v \<Rightarrow> 's \<Rightarrow> int \<Rightarrow> 's pyval \<Rightarrow> bool
     \<Rightarrow> exn + 'v \<times> string \<times> ('s, 'v) history option" where
  "newton orc np x_0 tolerance max_iter line_search_options trace =
     (let history = (if trace then Some empty_history else None)
      in bnd (get_line_search_tool np line_search_options) (\<lambda>line_search_tool.
         Inr (x_0, ''success'', history)))"

section \<open>gradient\_descent over a store of arrays\<close>

text \<open>
  For the question whether \<open>gradient_descent\<close> changes the array it is given, the arrays
  are placed in a store: a list of array contents, an address being an index. A Python
  variable that names an array holds its address. Every NumPy operation the module
  calls on arrays (\<open>a * d_k\<close>, \<open>x_k + ...\<close>, \<open>-g_k\<close>, \<open>np.copy\<close>) returns a new array, and so does
  \<open>oracle.grad\<close>: each appends to the store. \<open>oracle.func\<close>, \<open>np.dot\<close>, \<open>np.linalg.norm\<close>,
  \<open>np.isnan\<close>, \<open>np.isinf\<close> and \<open>.size\<close> read. The module has no statement that writes into
  an array (no item assignment, no augmented assignment on an array; \<open>a /= 2\<close> is on a
  float), so the store has no write operation. The arrays SciPy's search allocates are
  not reachable once it returns and are left out. The functions below are the functions
  above with the store passed along; the scalar primitives are unchanged.
\<close>

type_synonym 'v store = "'v list"

text \<open>A new array: its address is the next free one. An operation that raises allocates nothing.\<close>

definition st_new :: "exn + 'v \<Rightarrow> 'v store \<Rightarrow> (exn + nat) \<times> 'v store" where
  "st_new r H = (case r of Inl e \<Rightarrow> (Inl e, H) | Inr v \<Rightarrow> (Inr (length H), H @ [v]))"

definition st_pure :: "exn + 'a \<Rightarrow> 'v store \<Rightarrow> (exn + 'a) \<times> 'v store" where
  "st_pure r H = (r, H)"

definition st_bind ::
  "('v store \<Rightarrow> (exn + 'a) \<times> 'v store) \<Rightarrow> ('a \<Rightarrow> 'v store \<Rightarrow> (exn + 'b) \<times> 'v store)
     \<Rightarrow> 'v store \<Rightarrow> (exn + 'b) \<times> 'v store" where
  "st_bind m f H = (case m H of (Inl e, H1) \<Rightarrow> (Inl e, H1) | (Inr a, H1) \<Rightarrow> f a H1)"

definition st_smul :: "('s, 'v) numpy \<Rightarrow> 's \<Rightarrow> nat \<Rightarrow> 'v store \<Rightarrow> (exn + nat) \<times> 'v store" where
  "st_smul np a d H = st_new (np_smul np a (H ! d)) H"

definition st_vadd :: "('s, 'v) numpy \<Rightarrow> nat \<Rightarrow> nat \<Rightarrow> 'v store \<Rightarrow> (exn + nat) \<times> 'v store" where
  "st_vadd np u v H = st_new (np_vadd np (H ! u) (H ! v)) H"

definition st_neg :: "('s, 'v) numpy \<Rightarrow> nat \<Rightarrow> 'v store \<Rightarrow> (exn + nat) \<times> 'v store" where
  "st_neg np g H = st_new (np_neg np (H ! g)) H"

definition st_copy :: "nat \<Rightarrow> 'v store \<Rightarrow> (exn + nat) \<times> 'v store" where
  "st_copy x H = st_new (Inr (H ! x)) H"

definition st_grad ::
  "('s, 'v, 'm) smooth_oracle \<Rightarrow> nat \<Rightarrow> 'v store \<Rightarrow> (exn + nat) \<times> 'v store" where
  "st_grad orc x H = st_new (grad orc (H ! x)) H"

definition st_func ::
  "('s, 'v, 'm) smooth_oracle \<Rightarrow> nat \<Rightarrow> 'v store \<Rightarrow> (exn + 's) \<times> 'v store" where
  "st_func orc x H = (func orc (H ! x), H)"

definition st_dot :: "('s, 'v) numpy \<Rightarrow> nat \<Rightarrow> nat \<Rightarrow> 'v store \<Rightarrow> (exn + 's) \<times> 'v store" where
  "st_dot np u v H = (np_dot np (H ! u) (H ! v), H)"

definition st_norm :: "('s, 'v) numpy \<Rightarrow> nat \<Rightarrow> 'v store \<Rightarrow> (exn + 's) \<times> 'v store" where
  "st_norm np g H = (np_norm np (H ! g), H)"

text \<open>\<open>LineSearchTool.line_search\<close> over the store.\<close>

definition phi_st ::
  "('s, 'v, 'm) smooth_oracle \<Rightarrow> ('s, 'v) numpy \<Rightarrow> nat \<Rightarrow> nat \<Rightarrow> 's
     \<Rightarrow> 'v store \<Rightarrow> (exn + 's) \<times> 'v store" where
  "phi_st orc np x_k d_k a =
     st_bind (st_smul np a d_k) (\<lambda>ad.
     st_bind (st_vadd np x_k ad) (\<lambda>y.
     st_func orc y))"

definition phi_derivative_st ::
  "('s, 'v, 'm) smooth_oracle \<Rightarrow> ('s, 'v) numpy \<Rightarrow> nat \<Rightarrow> nat \<Rightarrow> 's
     \<Rightarrow> 'v store \<Rightarrow> (exn + 's) \<times> 'v store" where
  "phi_derivative_st orc np x_k d_k a =
     st_bind (st_smul np a d_k) (\<lambda>ad.
     st_bind (st_vadd np x_k ad) (\<lambda>y.
     st_bind (st_grad orc y) (\<lambda>g.
     st_dot np g d_k)))"

definition armijo_condition_st ::
  "('s, 'v, 'm) smooth_oracle \<Rightarrow> ('s, 'v) numpy \<Rightarrow> 's \<Rightarrow> nat \<Rightarrow> nat \<Rightarrow> 's
     \<Rightarrow> 'v store \<Rightarrow> (exn + bool) \<times> 'v store" where
  "armijo_condition_st orc np c1' x_k d_k a =
     st_bind (phi_st orc np x_k d_k a) (\<lambda>lhs.
     st_bind (phi_st orc np x_k d_k (np_lit np 0)) (\<lambda>phi0.
     st_bind (st_pure (f_mul np c1' a)) (\<lambda>c1a.
     st_bind (phi_derivative_st orc np x_k d_k (np_lit np 0)) (\<lambda>dphi0.
     st_bind (st_pure (f_mul np c1a dphi0)) (\<lambda>slope.
     st_bind (st_pure (f_add np phi0 slope)) (\<lambda>rhs.
     st_pure (f_le np lhs rhs)))))))"

partial_function (option) armijo_while_st ::
  "('s, 'v, 'm) smooth_oracle \<Rightarrow> ('s, 'v) numpy \<Rightarrow> 's \<Rightarrow> nat \<Rightarrow> nat \<Rightarrow> 's
     \<Rightarrow> 'v store \<Rightarrow> ((exn + 's) \<times> 'v store) option" where
  "armijo_while_st orc np c1' x_k d_k a H =
     (case armijo_condition_st orc np c1' x_k d_k a H of
        (Inl e, H1) \<Rightarrow> Some (Inl e, H1)
      | (Inr ok, H1) \<Rightarrow>
          if ok then Some (Inr a, H1)
          else (case f_div np a (np_lit np 2) of
                  Inl e \<Rightarrow> Some (Inl e, H1)
                | Inr a' \<Rightarrow> armijo_while_st orc np c1' x_k d_k a' H1))"

declare armijo_while_st.simps [code]

definition armijo_st ::
  "('s, 'v, 'm) smooth_oracle \<Rightarrow> ('s, 'v) numpy \<Rightarrow> 's \<Rightarrow> 's \<Rightarrow> nat \<Rightarrow> nat \<Rightarrow> 's option
     \<Rightarrow> 'v store \<Rightarrow> ((exn + 's) \<times> 'v store) option" where
  "armijo_st orc np c1' alpha0 x_k d_k previous_alpha H =
     (case armijo_start np alpha0 previous_alpha of
        Inl e \<Rightarrow> Some (Inl e, H)
      | Inr a \<Rightarrow> armijo_while_st orc np c1' x_k d_k a H)"

definition line_search_st ::
  "('s, 'v, 'm) smooth_oracle \<Rightarrow> ('s, 'v) numpy \<Rightarrow> 's LineSearchTool \<Rightarrow> nat \<Rightarrow> nat
     \<Rightarrow> 's option \<Rightarrow> 'v store \<Rightarrow> ((exn + 's option) \<times> 'v store) option" where
  "line_search_st orc np tool x_k d_k previous_alpha H =
     (case tool of
        Wolfe wc1 wc2 walpha0 \<Rightarrow>
          (case scalar_search_wolf2 np (func orc) (grad orc) (H ! x_k) (H ! d_k) wc1 wc2 of
             Inl e \<Rightarrow> Some (Inl e, H)
           | Inr ResNone \<Rightarrow>
               map_option (map_prod (map_sum id Some) id)
                 (armijo_st orc np wc1 walpha0 x_k d_k previous_alpha H)
           | Inr (ResTuple a0) \<Rightarrow> Some (Inr a0, H))
      | Armijo ac1 aalpha0 \<Rightarrow>
          map_option (map_prod (map_sum id Some) id)
            (armijo_st orc np ac1 aalpha0 x_k d_k previous_alpha H)
      | Constant cc \<Rightarrow> Some (Inr (Some cc), H))"

text \<open>\<open>history['x']\<close> holds the addresses of the iterates.\<close>

definition extend_history_st ::
  "('s, 'v, 'm) smooth_oracle \<Rightarrow> ('s, 'v) numpy \<Rightarrow> ('s, nat) history option \<Rightarrow> nat
     \<Rightarrow> 'v store \<Rightarrow> (exn option \<times> ('s, nat) history option) \<times> 'v store" where
  "extend_history_st orc np history x_k H =
     (case history of
        None \<Rightarrow> ((None, None), H)
      | Some h \<Rightarrow>
          (case st_grad orc x_k H of
             (Inl e, H1) \<Rightarrow> ((Some e, Some h), H1)
           | (Inr g_k, H1) \<Rightarrow>
               let t = dd_get (h_time h);
                   h1 = h\<lparr>h_time := Some (t @ [time_time np (Suc (length t)) - time_time np 0])\<rparr>;
                   h2 = h1\<lparr>h_func := Some (dd_get (h_func h1))\<rparr>
               in (case func orc (H1 ! x_k) of
                     Inl e \<Rightarrow> ((Some e, Some h2), H1)
                   | Inr f \<Rightarrow>
                       let h3 = h2\<lparr>h_func := Some (dd_get (h_func h2) @ [f])\<rparr>;
                           h4 = h3\<lparr>h_grad_norm := Some (dd_get (h_grad_norm h3))\<rparr>
                       in (case np_norm np (H1 ! g_k) of
                             Inl e \<Rightarrow> ((Some e, Some h4), H1)
                           | Inr n \<Rightarrow>
                               let h5 = h4\<lparr>h_grad_norm := Some (dd_get (h_grad_norm h4) @ [n])\<rparr>
                               in if np_size np (H1 ! x_k) \<le> 2
                                  then ((None, Some (h5\<lparr>h_x := Some (dd_get (h_x h5) @ [x_k])\<rparr>)), H1)
                                  else ((None, Some h5), H1)))))"

definition time_to_stop_st ::
  "('s, 'v, 'm) smooth_oracle \<Rightarrow> ('s, 'v) numpy \<Rightarrow> nat \<Rightarrow> 's \<Rightarrow> nat
     \<Rightarrow> 'v store \<Rightarrow> (exn + bool) \<times> 'v store" where
  "time_to_stop_st orc np x_0 tolerance x_k =
     st_bind (st_grad orc x_0) (\<lambda>g_0.
     st_bind (st_grad orc x_k) (\<lambda>g_k.
     st_bind (st_norm np g_k) (\<lambda>norm_k.
     st_bind (st_norm np g_0) (\<lambda>norm_0.
     st_bind (st_pure (f_mul np tolerance norm_0)) (\<lambda>bound.
     st_pure (f_le np norm_k bound))))))"

definition gd_body_st ::
  "('s, 'v, 'm) smooth_oracle \<Rightarrow> ('s, 'v) numpy \<Rightarrow> 's LineSearchTool \<Rightarrow> nat \<Rightarrow> 's
     \<Rightarrow> ('s, nat) gd_state \<Rightarrow> 'v store \<Rightarrow> (('s, nat) step \<times> 'v store) option" where
  "gd_body_st orc np tool x_0 tolerance s H =
     (case extend_history_st orc np (cur_history s) (cur_x s) H of
        ((Some e, h), H1) \<Rightarrow> Some (Stop (Raise e h), H1)
      | ((None, h), H1) \<Rightarrow>
     (case time_to_stop_st orc np x_0 tolerance (cur_x s) H1 of
        (Inl e, H2) \<Rightarrow> Some (Stop (Raise e h), H2)
      | (Inr stop, H2) \<Rightarrow>
     if stop then Some (Stop (Return (cur_x s) ''success'' h), H2) else
     (case st_grad orc (cur_x s) H2 of
        (Inl e, H3) \<Rightarrow> Some (Stop (Raise e h), H3)
      | (Inr g_k, H3) \<Rightarrow>
     (case st_neg np g_k H3 of
        (Inl e, H4) \<Rightarrow> Some (Stop (Raise e h), H4)
      | (Inr d_k, H4) \<Rightarrow>
     (case line_search_st orc np tool (cur_x s) d_k (cur_a s) H4 of
        None \<Rightarrow> None
      | Some (Inl e, H5) \<Rightarrow> Some (Stop (Raise e h), H5)
      | Some (Inr None, H5) \<Rightarrow>
          Some (Stop (Return (cur_x s) ''a_k computational_error'' h), H5)
      | Some (Inr (Some a), H5) \<Rightarrow>
     if np_isnan np a then Some (Stop (Return (cur_x s) ''a_k computational_error'' h), H5)
     else if np_any_isinf np (H5 ! cur_x s)
       then Some (Stop (Return (cur_x s) ''x_k computational_error'' h), H5)
     else if np_any_isinf np (H5 ! d_k)
       then Some (Stop (Return (cur_x s) ''d_k computational_error'' h), H5)
     else
     (case st_smul np a d_k H5 of
        (Inl e, H6) \<Rightarrow> Some (Stop (Raise e h), H6)
      | (Inr ad, H6) \<Rightarrow>
     (case st_vadd np (cur_x s) ad H6 of
        (Inl e, H7) \<Rightarrow> Some (Stop (Raise e h), H7)
      | (Inr x', H7) \<Rightarrow>
          Some (Continue \<lparr>cur_x = x', cur_a = Some a, cur_history = h\<rparr>, H7))))))))"

definition gd_final_st ::
  "('s, 'v, 'm) smooth_oracle \<Rightarrow> ('s, 'v) numpy \<Rightarrow> nat \<Rightarrow> 's
     \<Rightarrow> ('s, nat) gd_state \<Rightarrow> 'v store \<Rightarrow> ('s, nat) outcome \<times> 'v store" where
  "gd_final_st orc np x_0 tolerance s H =
     (case extend_history_st orc np (cur_history s) (cur_x s) H of
        ((Some e, h), H1) \<Rightarrow> (Raise e h, H1)
      | ((None, h), H1) \<Rightarrow>
     (case time_to_stop_st orc np x_0 tolerance (cur_x s) H1 of
        (Inl e, H2) \<Rightarrow> (Raise e h, H2)
      | (Inr stop, H2) \<Rightarrow>
          if stop then (Return (cur_x s) ''success'' h, H2)
          else (Return (cur_x s) ''iterations_exceeded'' h, H2)))"

fun gd_loop_st ::
  "('s, 'v, 'm) smooth_oracle \<Rightarrow> ('s, 'v) numpy \<Rightarrow> 's LineSearchTool \<Rightarrow> nat \<Rightarrow> 's
     \<Rightarrow> nat \<Rightarrow> ('s, nat) gd_state \<Rightarrow> 'v store \<Rightarrow> (('s, nat) outcome \<times> 'v store) option" where
  "gd_loop_st orc np tool x_0 tolerance 0 s H = Some (gd_final_st orc np x_0 tolerance s H)"
| "gd_loop_st orc np tool x_0 tolerance (Suc n) s H =
     (case gd_body_st orc np tool x_0 tolerance s H of
        None \<Rightarrow> None
      | Some (Stop r, H1) \<Rightarrow> Some (r, H1)
      | Some (Continue s', H1) \<Rightarrow> gd_loop_st orc np tool x_0 tolerance n s' H1)"

text \<open>\<open>x_k = np.copy(x_0)\<close> is the first allocation of the run.\<close>

definition gd_try_st ::
  "('s, 'v, 'm) smooth_oracle \<Rightarrow> ('s, 'v) numpy \<Rightarrow> nat \<Rightarrow> 's \<Rightarrow> int \<Rightarrow> 's pyval
     \<Rightarrow> ('s, nat) history option \<Rightarrow> 'v store \<Rightarrow> (('s, nat) outcome \<times> 'v store) option" where
  "gd_try_st orc np x_0 tolerance max_iter line_search_options history H =
     (case get_line_search_tool np line_search_options of
        Inl e \<Rightarrow> Some (Raise e history, H)
      | Inr tool \<Rightarrow>
          (case st_copy x_0 H of
             (Inl e, H1) \<Rightarrow> Some (Raise e history, H1)
           | (Inr x_k, H1) \<Rightarrow>
               gd_loop_st orc np tool x_0 tolerance (nat max_iter) (gd_init x_k history) H1))"

definition gradient_descent_st ::
  "('s, 'v, 'm) smooth_oracle \<Rightarrow> ('s, 'v) numpy \<Rightarrow> nat \<Rightarrow> 's \<Rightarrow> int \<Rightarrow> 's pyval \<Rightarrow> bool
     \<Rightarrow> 'v store \<Rightarrow> ((exn + nat \<times> string \<times> ('s, nat) history option) \<times> 'v store) option" where
  "gradient_descent_st orc np x_0 tolerance max_iter line_search_options trace H =
     (case gd_try_st orc np x_0 tolerance max_iter line_search_options
             (if trace then Some empty_history else None) H of
        None \<Rightarrow> None
      | Some (Return x message h, H1) \<Rightarrow> Some (Inr (x, message, h), H1)
      | Some (Raise e h, H1) \<Rightarrow>
          if e = FloatingPointError then Some (Inr (x_0, ''computational_error'', h), H1)
          else Some (Inl e, H1))"

section \<open>Notions used to state the properties\<close>



text \<open>
  What \<open>time_to_stop(x_k)\<close> yields when the run evaluates it in state \<open>s\<close>, that is after
  \<open>extend_history(x_k)\<close>; \<open>None\<close> when one of the two raises. \<open>recorded\<close> is the trace
  as \<open>extend_history(x_k)\<close> leaves it.
\<close>

definition stop_test ::
  "('s, 'v, 'm) smooth_oracle \<Rightarrow> ('s, 'v) numpy \<Rightarrow> 'v \<Rightarrow> 's \<Rightarrow> ('s, 'v) gd_state
     \<Rightarrow> bool option" where
  "stop_test orc np x_0 tolerance s =
     (case extend_history orc np (cur_history s) (cur_x s) of
        (Some e, h) \<Rightarrow> None
      | (None, h) \<Rightarrow>
          (case time_to_stop orc np x_0 tolerance (cur_x s) of
             Inl e \<Rightarrow> None
           | Inr stop \<Rightarrow> Some stop))"



text \<open>
  A computation over the store only appends to it. \<open>step_fresh\<close> and \<open>outcome_fresh\<close> say
  where the point of a step or of an outcome lies: a new iterate is an address that did
  not exist before the step, and a returned point is the current one or a later
  allocation.
\<close>

definition st_grows :: "('v store \<Rightarrow> 'a \<times> 'v store) \<Rightarrow> bool" where
  "st_grows m = (\<forall>H r H'. m H = (r, H') \<longrightarrow> prefix H H')"

definition step_fresh :: "('s, nat) gd_state \<Rightarrow> 'v store \<Rightarrow> ('s, nat) step \<Rightarrow> 'v store \<Rightarrow> bool" where
  "step_fresh s H st H' =
     (case st of
        Continue s' \<Rightarrow> length H \<le> cur_x s' \<and> cur_x s' < length H'
      | Stop (Return x m h) \<Rightarrow> x = cur_x s \<and> m \<noteq> ''computational_error''
      | Stop (Raise e h) \<Rightarrow> True)"

definition outcome_fresh ::
  "('s, nat) gd_state \<Rightarrow> 'v store \<Rightarrow> ('s, nat) outcome \<Rightarrow> 'v store \<Rightarrow> bool" where
  "outcome_fresh s H r H' =
     (case r of
        Return x m h \<Rightarrow> m \<noteq> ''computational_error'' \<and> (x = cur_x s \<or> length H \<le> x) \<and>
                        (cur_x s < length H \<longrightarrow> x < length H')
      | Raise e h \<Rightarrow> True)"

text \<open>
  Reading a result of the store model as values: an address is replaced by the array
  stored there. The predicates \<open>..._valid\<close> say that every address that occurs is in the
  store.
\<close>

definition deref_history :: "'v store \<Rightarrow> ('s, nat) history \<Rightarrow> ('s, 'v) history" where
  "deref_history H h =
     \<lparr>h_time = h_time h, h_func = h_func h, h_grad_norm = h_grad_norm h,
      h_x = map_option (map (\<lambda>a. H ! a)) (h_x h)\<rparr>"

definition history_valid :: "'v store \<Rightarrow> ('s, nat) history option \<Rightarrow> bool" where
  "history_valid H ho =
     (case ho of None \<Rightarrow> True | Some h \<Rightarrow> (\<forall>a \<in> set (dd_get (h_x h)). a < length H))"

definition deref_state :: "'v store \<Rightarrow> ('s, nat) gd_state \<Rightarrow> ('s, 'v) gd_state" where
  "deref_state H s =
     \<lparr>cur_x = H ! cur_x s, cur_a = cur_a s,
      cur_history = map_option (deref_history H) (cur_history s)\<rparr>"

definition state_valid :: "'v store \<Rightarrow> ('s, nat) gd_state \<Rightarrow> bool" where
  "state_valid H s = (cur_x s < length H \<and> history_valid H (cur_history s))"

definition deref_outcome :: "'v store \<Rightarrow> ('s, nat) outcome \<Rightarrow> ('s, 'v) outcome" where
  "deref_outcome H r =
     (case r of
        Return x m h \<Rightarrow> Return (H ! x) m (map_option (deref_history H) h)
      | Raise e h \<Rightarrow> Raise e (map_option (deref_history H) h))"

definition outcome_valid :: "'v store \<Rightarrow> ('s, nat) outcome \<Rightarrow> bool" where
  "outcome_valid H r =
     (case r of
        Return x m h \<Rightarrow> x < length H \<and> history_valid H h
      | Raise e h \<Rightarrow> history_valid H h)"

definition deref_step :: "'v store \<Rightarrow> ('s, nat) step \<Rightarrow> ('s, 'v) step" where
  "deref_step H st =
     (case st of Continue s \<Rightarrow> Continue (deref_state H s) | Stop r \<Rightarrow> Stop (deref_outcome H r))"

definition step_valid :: "'v store \<Rightarrow> ('s, nat) step \<Rightarrow> bool" where
  "step_valid H st =
     (case st of Continue s \<Rightarrow> state_valid H s | Stop r \<Rightarrow> outcome_valid H r)"

section \<open>Concrete oracles and primitives\<close>

text \<open>
  An instance of the primitives, used to run the functions on concrete inputs: exact
  real arithmetic on lists. Arrays of different lengths are refused, as NumPy refuses
  shapes it cannot broadcast; nothing is ever NaN or infinite. The Wolfe search is a
  parameter of the instance.
\<close>

text \<open>The Euclidean norm of \<open>np.linalg.norm\<close> over the reals.\<close>

definition l2_norm :: "real list \<Rightarrow> real" where
  "l2_norm v = sqrt (sum_list (map (\<lambda>x. x * x) v))"

definition np_exact ::
  "((real list \<Rightarrow> exn + real) \<Rightarrow> (real list \<Rightarrow> exn + real list) \<Rightarrow> real list \<Rightarrow> real list
      \<Rightarrow> real \<Rightarrow> real \<Rightarrow> exn + real search_result) \<Rightarrow> (real, real list) numpy" where
  "np_exact search =
     \<lparr>np_lit = (\<lambda>r. r),
      np_smul = (\<lambda>a v. Inr (map (\<lambda>x. a * x) v)),
      np_vadd = (\<lambda>u v. if length u = length v then Inr (map2 (+) u v) else Inl ValueError),
      np_neg = (\<lambda>v. Inr (map uminus v)),
      np_dot = (\<lambda>u v. if length u = length v then Inr (sum_list (map2 (*) u v))
                       else Inl ValueError),
      np_norm = (\<lambda>v. Inr (l2_norm v)),
      f_mul = (\<lambda>a b. Inr (a * b)),
      f_add = (\<lambda>a b. Inr (a + b)),
      f_div = (\<lambda>a b. if b = 0 then Inl FloatingPointError else Inr (a / b)),
      f_le = (\<lambda>a b. Inr (a \<le> b)),
      np_isnan = (\<lambda>a. False),
      np_any_isinf = (\<lambda>v. False),
      np_size = length,
      scalar_search_wolf2 = search,
      time_time = real\<rparr>"

text \<open>A Wolfe search that never converges: SciPy then returns a tuple that starts with \<open>None\<close>.\<close>

definition search_fails ::
  "(real list \<Rightarrow> exn + real) \<Rightarrow> (real list \<Rightarrow> exn + real list) \<Rightarrow> real list \<Rightarrow> real list
     \<Rightarrow> real \<Rightarrow> real \<Rightarrow> exn + real search_result" where
  "search_fails f g x_k d_k wc1 wc2 = Inr (ResTuple None)"

definition mat_vec :: "real list list \<Rightarrow> real list \<Rightarrow> real list" where
  "mat_vec A x = map (\<lambda>row. sum_list (map2 (*) row x)) A"

text \<open>
  Modelled from the spec: the quadratic oracle \<open>f(x) = 1/2 x\<^sup>T A x - b\<^sup>T x\<close> of section 8,
  with gradient \<open>A x - b\<close> and Hessian \<open>A\<close> (the class \<open>QuadraticOracle\<close> the docstrings
  use is not part of the module). It serves as a concrete input only.
\<close>

definition quadratic_oracle ::
  "real list list \<Rightarrow> real list \<Rightarrow> (real, real list, real list list) smooth_oracle" where
  "quadratic_oracle A b =
     \<lparr>func = (\<lambda>x. Inr (sum_list (map2 (*) x (mat_vec A x)) / 2 - sum_list (map2 (*) b x))),
      grad = (\<lambda>x. Inr (map2 (-) (mat_vec A x) b)),
      hess = (\<lambda>x. Inr A)\<rparr>"



section \<open>Evaluation of the concrete instances\<close>

text \<open>
  A square root has no code equation in general; for arrays of size 0 and 1, which the
  concrete runs below use, the norm is computed without one.
\<close>

lemma l2_norm_code [code]: "l2_norm [] = 0" "l2_norm [x] = \<bar>x\<bar>"
  by (simp_all add: l2_norm_def)

lemma np_exact_simps:
  "np_lit (np_exact srch) r = r"
  "np_smul (np_exact srch) a v = Inr (map (\<lambda>x. a * x) v)"
  "np_vadd (np_exact srch) u v = (if length u = length v then Inr (map2 (+) u v) else Inl ValueError)"
  "np_neg (np_exact srch) v = Inr (map uminus v)"
  "np_dot (np_exact srch) u v = (if length u = length v then Inr (sum_list (map2 (*) u v)) else Inl ValueError)"
  "np_norm (np_exact srch) [] = Inr 0"
  "np_norm (np_exact srch) [x] = Inr \<bar>x\<bar>"
  "f_mul (np_exact srch) a b = Inr (a * b)"
  "f_add (np_exact srch) a b = Inr (a + b)"
  "f_div (np_exact srch) a b = (if b = 0 then Inl FloatingPointError else Inr (a / b))"
  "f_le (np_exact srch) a b = Inr (a \<le> b)"
  "np_isnan (np_exact srch) a = False"
  "np_any_isinf (np_exact srch) v = False"
  "np_size (np_exact srch) v = length v"
  "scalar_search_wolf2 (np_exact srch) = srch"
  "time_time (np_exact srch) n = real n"
  by (simp_all add: np_exact_def l2_norm_def)

lemma quadratic_oracle_simps:
  "func (quadratic_oracle A b) x = Inr (sum_list (map2 (*) x (mat_vec A x)) / 2 - sum_list (map2 (*) b x))"
  "grad (quadratic_oracle A b) x = Inr (map2 (-) (mat_vec A x) b)"
  "hess (quadratic_oracle A b) x = Inr A"
  by (simp_all add: quadratic_oracle_def)

lemmas run_defs = gradient_descent_def gd_try_def get_line_search_tool_def from_dict_def
  LineSearchTool_init_def kwargs_get_def gd_init_def gd_body_def gd_final_def
  extend_history_def time_to_stop_def line_search_def bnd_def empty_history_def dd_get_def
  np_exact_simps quadratic_oracle_simps mat_vec_def

lemmas ls_defs = line_search_def armijo_def armijo_start_def armijo_while.simps
  armijo_condition_def phi_def phi_derivative_def bnd_def np_exact_simps quadratic_oracle_simps
  mat_vec_def

section \<open>Properties of the step-size policy\<close>

text \<open>
  C7. With the Constant policy configured with \<open>c\<close>, \<open>line_search\<close> returns exactly \<open>c\<close>:
  it returns (no exception, no divergence), and the value does not depend on the oracle,
  the numeric primitives, the point, the direction or the previous step.
\<close>

theorem line_search_Constant:
  "line_search orc np (Constant cc) x_k d_k previous_alpha = Some (Inr (Some cc))"
  by (simp add: line_search_def)










text \<open>
  C4. What the code does when the Wolfe search fails: \<open>scipy.optimize.line_search\<close> then
  returns a tuple whose first component is \<open>None\<close>, the test \<open>a is None\<close> on the tuple is
  false, and \<open>line_search\<close> returns \<open>a[0]\<close>, that is Python's \<open>None\<close>; the Armijo
  backtracking is not run. In the instance below Armijo would have returned the step 1,
  and \<open>gradient_descent\<close> with the default options stops at once with
  \<open>'a_k computational_error'\<close>.
\<close>

theorem wolfe_failure_returns_None:
  assumes "scalar_search_wolf2 np (func orc) (grad orc) x_k d_k wc1 wc2 = Inr (ResTuple None)"
  shows "line_search orc np (Wolfe wc1 wc2 walpha0) x_k d_k previous_alpha = Some (Inr None)"
  using assms by (simp add: line_search_def)

theorem wolfe_failure_returns_None_witness:
  "line_search (quadratic_oracle [[1]] [0]) (np_exact search_fails) (Wolfe (1 / 10000) (9 / 10) 1)
      [1] [- 1] None = Some (Inr None) \<and>
   armijo (quadratic_oracle [[1]] [0]) (np_exact search_fails) (1 / 10000) 1 [1] [- 1] None =
      Some (Inr 1) \<and>
   gradient_descent (quadratic_oracle [[1]] [0]) (np_exact search_fails) [1] (1 / 100000) 10000
      PyNone False = Some (Inr ([1], ''a_k computational_error'', None))"
proof -
  have s: "scalar_search_wolf2 (np_exact search_fails) (func (quadratic_oracle [[1]] [0]))
      (grad (quadratic_oracle [[1]] [0])) [1] [- 1] (1 / 10000) (9 / 10) = Inr (ResTuple None)"
    by (simp add: np_exact_simps search_fails_def)
  have a: "armijo (quadratic_oracle [[1]] [0]) (np_exact search_fails) (1 / 10000) 1 [1] [- 1] None =
      Some (Inr 1)"
    by (simp add: ls_defs)
  have g: "gradient_descent (quadratic_oracle [[1]] [0]) (np_exact search_fails) [1] (1 / 100000) 10000
      PyNone False = Some (Inr ([1], ''a_k computational_error'', None))"
    by (simp add: run_defs search_fails_def numeral_eq_Suc)
  from wolfe_failure_returns_None[OF s, of 1 None] a g show ?thesis by simp
qed

section \<open>Properties of get\_line\_search\_tool\<close>

text \<open>
  C9, amended. \<open>get_line_search_tool\<close> tests the truth value of the options. For \<open>None\<close>,
  and for every other falsy value (the empty dict, \<open>False\<close>, 0, the empty string), it
  builds the Wolfe tool with \<open>c1 = 1e-4\<close>, \<open>c2 = 0.9\<close>, \<open>alpha_0 = 1.0\<close>; a \<open>LineSearchTool\<close>
  is used as it is; a truthy value that is neither a dict nor a \<open>LineSearchTool\<close> raises
  \<open>TypeError\<close>. \<open>gradient_descent\<close> without options runs as with that Wolfe tool.
\<close>

theorem get_line_search_tool_cases:
  "get_line_search_tool np PyNone =
     Inr (Wolfe (np_lit np (1 / 10000)) (np_lit np (9 / 10)) (np_lit np 1)) \<and>
   get_line_search_tool np (PyDict None []) =
     Inr (Wolfe (np_lit np (1 / 10000)) (np_lit np (9 / 10)) (np_lit np 1)) \<and>
   get_line_search_tool np (PyTool t) = Inr t \<and>
   get_line_search_tool np (PyBool b) =
     (if b then Inl TypeError
      else Inr (Wolfe (np_lit np (1 / 10000)) (np_lit np (9 / 10)) (np_lit np 1))) \<and>
   get_line_search_tool np (PyInt i) =
     (if i = 0 then Inr (Wolfe (np_lit np (1 / 10000)) (np_lit np (9 / 10)) (np_lit np 1))
      else Inl TypeError) \<and>
   get_line_search_tool np (PyStr s) =
     (if s = [] then Inr (Wolfe (np_lit np (1 / 10000)) (np_lit np (9 / 10)) (np_lit np 1))
      else Inl TypeError) \<and>
   gradient_descent orc np x_0 tolerance max_iter PyNone trace =
     gradient_descent orc np x_0 tolerance max_iter
       (PyTool (Wolfe (np_lit np (1 / 10000)) (np_lit np (9 / 10)) (np_lit np 1))) trace"
  by (simp add: get_line_search_tool_def from_dict_def LineSearchTool_init_def kwargs_get_def
      gradient_descent_def gd_try_def)

text \<open>
  C9 as stated fails: 0 is neither a dict nor a \<open>LineSearchTool\<close>, and it yields the default
  Wolfe tool, not a type error.
\<close>

theorem get_line_search_tool_counterexample:
  "get_line_search_tool (np_exact search_fails) (PyInt 0) = Inr (Wolfe (1 / 10000) (9 / 10) 1)"
  by (simp add: get_line_search_tool_def LineSearchTool_init_def kwargs_get_def np_exact_simps)

section \<open>Properties of gradient\_descent\<close>





lemma gd_body_Continue:
  "gd_body orc np tool x_0 tol s = Some (Continue s') \<Longrightarrow> stop_test orc np x_0 tol s = Some False"
  by (auto simp: gd_body_def stop_test_def split: prod.splits option.splits sum.splits if_splits)



























section \<open>Properties of newton\<close>

text \<open>
  C1. What the code does: \<open>newton\<close> never returns the message \<open>'newton_direction_error'\<close>,
  whatever the oracle. On the quadratic with the singular matrix \<open>A = [[0]]\<close>, whose Hessian
  is \<open>[[0]]\<close>, it returns the starting point with \<open>'success'\<close>.
\<close>

theorem newton_never_direction_error:
  "newton orc np x_0 tolerance max_iter line_search_options trace \<noteq>
     Inr (x, ''newton_direction_error'', h) \<and>
   hess (quadratic_oracle [[0]] [1]) [0] = Inr [[0]] \<and>
   newton (quadratic_oracle [[0]] [1]) (np_exact search_fails) [0] (1 / 100000) 100 PyNone False =
     Inr ([0], ''success'', None)"
  by (simp add: newton_def bnd_def quadratic_oracle_simps get_line_search_tool_def
      LineSearchTool_init_def kwargs_get_def split: sum.splits)

text \<open>
  C6. What the code does on the docstring's example, the quadratic with \<open>A\<close> the 5 x 5
  identity and \<open>b = [0, 1, 2, 3, 4]\<close>, started at zero with the constant step 1: it
  returns the starting point with \<open>'success'\<close>. The gradient there is \<open>-b\<close>, not zero; the
  minimizer is \<open>b\<close>.
\<close>

theorem newton_returns_start:
  "newton (quadratic_oracle [[1, 0, 0, 0, 0], [0, 1, 0, 0, 0], [0, 0, 1, 0, 0], [0, 0, 0, 1, 0],
                             [0, 0, 0, 0, 1]] [0, 1, 2, 3, 4])
      (np_exact search_fails) [0, 0, 0, 0, 0] (1 / 100000) 100
      (PyDict (Some ''Constant'') [(''c'', 1)]) False =
     Inr ([0, 0, 0, 0, 0], ''success'', None) \<and>
   grad (quadratic_oracle [[1, 0, 0, 0, 0], [0, 1, 0, 0, 0], [0, 0, 1, 0, 0], [0, 0, 0, 1, 0],
                             [0, 0, 0, 0, 1]] [0, 1, 2, 3, 4]) [0, 0, 0, 0, 0] =
     Inr [0, - 1, - 2, - 3, - 4] \<and>
   grad (quadratic_oracle [[1, 0, 0, 0, 0], [0, 1, 0, 0, 0], [0, 0, 1, 0, 0], [0, 0, 0, 1, 0],
                             [0, 0, 0, 0, 1]] [0, 1, 2, 3, 4]) [0, 1, 2, 3, 4] =
     Inr [0, 0, 0, 0, 0]"
  by (simp add: newton_def bnd_def quadratic_oracle_simps mat_vec_def get_line_search_tool_def
      from_dict_def LineSearchTool_init_def kwargs_get_def)

section \<open>The caller's array\<close>

lemma st_growsD: "st_grows m \<Longrightarrow> m H = (r, H') \<Longrightarrow> prefix H H'"
  by (auto simp: st_grows_def)

lemma st_grows_new: "st_grows (st_new r)"
  by (auto simp: st_grows_def st_new_def split: sum.splits)

lemma st_grows_pure: "st_grows (st_pure r)"
  by (auto simp: st_grows_def st_pure_def)

lemma st_grows_bind:
  assumes "st_grows m" and "\<And>a. st_grows (f a)"
  shows "st_grows (st_bind m f)"
  unfolding st_grows_def
proof (intro allI impI)
  fix H r H' assume b: "st_bind m f H = (r, H')"
  obtain r1 H1 where m: "m H = (r1, H1)" by (cases "m H")
  with assms(1) have p1: "prefix H H1" by (rule st_growsD)
  show "prefix H H'"
  proof (cases r1)
    case (Inl e)
    with b m p1 show ?thesis by (simp add: st_bind_def)
  next
    case (Inr a)
    with b m have "f a H1 = (r, H')" by (simp add: st_bind_def)
    with assms(2) have "prefix H1 H'" by (rule st_growsD)
    with p1 show ?thesis by (rule prefix_order.trans)
  qed
qed

lemma st_grows_prims:
  "st_grows (st_smul np a d)" "st_grows (st_vadd np u v)" "st_grows (st_neg np g)"
  "st_grows (st_copy x)" "st_grows (st_grad orc x)" "st_grows (st_func orc x)"
  "st_grows (st_dot np u v)" "st_grows (st_norm np g)"
  by (auto simp: st_grows_def st_smul_def st_vadd_def st_neg_def st_copy_def st_grad_def
      st_func_def st_dot_def st_norm_def st_new_def split: sum.splits)

lemmas st_grows_intros = st_grows_bind st_grows_pure st_grows_new st_grows_prims

lemma phi_st_grows: "st_grows (phi_st orc np x_k d_k a)"
  unfolding phi_st_def by (intro st_grows_intros)

lemma phi_derivative_st_grows: "st_grows (phi_derivative_st orc np x_k d_k a)"
  unfolding phi_derivative_st_def by (intro st_grows_intros)

lemma armijo_condition_st_grows: "st_grows (armijo_condition_st orc np c1' x_k d_k a)"
  unfolding armijo_condition_st_def
  by (intro st_grows_intros phi_st_grows phi_derivative_st_grows)

lemma time_to_stop_st_grows: "st_grows (time_to_stop_st orc np x_0 tol x_k)"
  unfolding time_to_stop_st_def by (intro st_grows_intros)

lemma armijo_while_st_grows:
  assumes "armijo_while_st orc np c1' x_k d_k a H = Some (r, H')"
  shows "prefix H H'"
proof -
  have "prefix H (snd (r, H'))"
  proof (rule armijo_while_st.raw_induct[where P = "\<lambda>orc np c1' x_k d_k a H y. prefix H (snd y)",
        OF _ assms], goal_cases)
    case (1 w orc np c1' x_k d_k a H y)
    obtain c H1 where c: "armijo_condition_st orc np c1' x_k d_k a H = (c, H1)"
      by (cases "armijo_condition_st orc np c1' x_k d_k a H")
    then have p: "prefix H H1" using armijo_condition_st_grows by (rule st_growsD[rotated])
    show ?case
    proof (cases c)
      case (Inl e)
      with 1(2) c p show ?thesis by auto
    next
      case (Inr ok)
      show ?thesis
      proof (cases ok)
        case True
        with 1(2) c Inr p show ?thesis by auto
      next
        case False
        show ?thesis
        proof (cases "f_div np a (np_lit np 2)")
          case (Inl e)
          with 1(2) c \<open>c = Inr ok\<close> False p show ?thesis by auto
        next
          case (Inr a')
          with 1(2) c \<open>c = Inr ok\<close> False have "w orc np c1' x_k d_k a' H1 = Some y" by simp
          from 1(1)[OF this] p show ?thesis by (rule prefix_order.trans[rotated])
        qed
      qed
    qed
  qed
  then show ?thesis by simp
qed

lemma armijo_st_grows:
  "armijo_st orc np c1' alpha0 x_k d_k previous_alpha H = Some (r, H') \<Longrightarrow> prefix H H'"
  by (auto simp: armijo_st_def split: sum.splits dest: armijo_while_st_grows)

lemma line_search_st_grows:
  "line_search_st orc np tool x_k d_k previous_alpha H = Some (r, H') \<Longrightarrow> prefix H H'"
  by (auto simp: line_search_st_def split: LineSearchTool.splits sum.splits search_result.splits
      dest: armijo_st_grows)

lemma extend_history_st_grows:
  "extend_history_st orc np history x_k H = (r, H') \<Longrightarrow> prefix H H'"
proof (cases history)
  case None
  then show "extend_history_st orc np history x_k H = (r, H') \<Longrightarrow> prefix H H'"
    by (simp add: extend_history_st_def)
next
  case (Some h)
  assume a: "extend_history_st orc np history x_k H = (r, H')"
  obtain g H1 where g: "st_grad orc x_k H = (g, H1)" by (cases "st_grad orc x_k H")
  then have p: "prefix H H1" using st_grows_prims(5) by (rule st_growsD[rotated])
  have "H' = H1"
    using a Some g
    by (auto simp: extend_history_st_def Let_def split: sum.splits if_splits)
  with p show "prefix H H'" by simp
qed

lemma st_vadd_fresh:
  "st_vadd np u v H = (Inr x, H') \<Longrightarrow> x = length H \<and> length H' = Suc (length H)"
  by (auto simp: st_vadd_def st_new_def split: sum.splits)

lemma st_copy_fresh:
  "st_copy u H = (r, H') \<Longrightarrow> r = Inr (length H) \<and> H' = H @ [H ! u]"
  by (auto simp: st_copy_def st_new_def)

lemma gd_body_st_frame:
  assumes "gd_body_st orc np tool x_0 tol s H = Some (st, H')"
  shows "prefix H H' \<and> step_fresh s H st H'"
proof -
  obtain eh H1 where eh: "extend_history_st orc np (cur_history s) (cur_x s) H = (eh, H1)"
    by (cases "extend_history_st orc np (cur_history s) (cur_x s) H")
  then have p1: "prefix H H1" by (rule extend_history_st_grows)
  obtain ex h where ehp: "eh = (ex, h)" by (cases eh)
  show ?thesis
  proof (cases ex)
    case (Some e)
    with assms eh ehp p1 show ?thesis by (auto simp: gd_body_st_def step_fresh_def)
  next
    case None
    note ex = this
    obtain t H2 where t: "time_to_stop_st orc np x_0 tol (cur_x s) H1 = (t, H2)"
      by (cases "time_to_stop_st orc np x_0 tol (cur_x s) H1")
    then have "prefix H1 H2" using time_to_stop_st_grows by (rule st_growsD[rotated])
    with p1 have p2: "prefix H H2" by (rule prefix_order.trans)
    show ?thesis
    proof (cases t)
      case (Inl e)
      with assms eh ehp ex t p2 show ?thesis by (auto simp: gd_body_st_def step_fresh_def)
    next
      case (Inr stop)
      note tv = this
      show ?thesis
      proof (cases stop)
        case True
        with assms eh ehp ex t tv p2 show ?thesis by (auto simp: gd_body_st_def step_fresh_def)
      next
        case False
        note stop = this
        obtain g H3 where g: "st_grad orc (cur_x s) H2 = (g, H3)"
          by (cases "st_grad orc (cur_x s) H2")
        then have "prefix H2 H3" using st_grows_prims(5) by (rule st_growsD[rotated])
        with p2 have p3: "prefix H H3" by (rule prefix_order.trans)
        show ?thesis
        proof (cases g)
          case (Inl e)
          with assms eh ehp ex t tv stop g p3 show ?thesis
            by (auto simp: gd_body_st_def step_fresh_def)
        next
          case (Inr g_k)
          note gv = this
          obtain d H4 where d: "st_neg np g_k H3 = (d, H4)" by (cases "st_neg np g_k H3")
          then have "prefix H3 H4" using st_grows_prims(3) by (rule st_growsD[rotated])
          with p3 have p4: "prefix H H4" by (rule prefix_order.trans)
          show ?thesis
          proof (cases d)
            case (Inl e)
            with assms eh ehp ex t tv stop g gv d p4 show ?thesis
              by (auto simp: gd_body_st_def step_fresh_def)
          next
            case (Inr d_k)
            note dv = this
            from assms eh ehp ex t tv stop g gv d dv obtain ls H5 where
              ls: "line_search_st orc np tool (cur_x s) d_k (cur_a s) H4 = Some (ls, H5)"
              by (cases "line_search_st orc np tool (cur_x s) d_k (cur_a s) H4")
                 (auto simp: gd_body_st_def)
            then have "prefix H4 H5" by (rule line_search_st_grows)
            with p4 have p5: "prefix H H5" by (rule prefix_order.trans)
            note pre = assms eh ehp ex t tv stop g gv d dv ls
            show ?thesis
            proof (cases ls)
              case (Inl e)
              with pre p5 show ?thesis by (auto simp: gd_body_st_def step_fresh_def)
            next
              case (Inr ao)
              note lv = this
              show ?thesis
              proof (cases ao)
                case None
                with pre lv p5 show ?thesis by (auto simp: gd_body_st_def step_fresh_def)
              next
                case (Some a)
                note av = this
                show ?thesis
                proof (cases "np_isnan np a \<or> np_any_isinf np (H5 ! cur_x s) \<or>
                              np_any_isinf np (H5 ! d_k)")
                  case True
                  with pre lv av p5 show ?thesis
                    by (auto simp: gd_body_st_def step_fresh_def split: if_splits)
                next
                  case False
                  note chk = this
                  obtain m H6 where m: "st_smul np a d_k H5 = (m, H6)"
                    by (cases "st_smul np a d_k H5")
                  then have "prefix H5 H6" using st_grows_prims(1) by (rule st_growsD[rotated])
                  with p5 have p6: "prefix H H6" by (rule prefix_order.trans)
                  show ?thesis
                  proof (cases m)
                    case (Inl e)
                    with pre lv av chk m p6 show ?thesis
                      by (auto simp: gd_body_st_def step_fresh_def)
                  next
                    case (Inr ad)
                    note mv = this
                    obtain v H7 where v: "st_vadd np (cur_x s) ad H6 = (v, H7)"
                      by (cases "st_vadd np (cur_x s) ad H6")
                    then have "prefix H6 H7" using st_grows_prims(2) by (rule st_growsD[rotated])
                    with p6 have p7: "prefix H H7" by (rule prefix_order.trans)
                    show ?thesis
                    proof (cases v)
                      case (Inl e)
                      with pre lv av chk m mv v p7 show ?thesis
                        by (auto simp: gd_body_st_def step_fresh_def)
                    next
                      case (Inr x')
                      with v have "x' = length H6 \<and> length H7 = Suc (length H6)"
                        by (simp add: st_vadd_fresh)
                      moreover have "length H \<le> length H6" using p6 by (rule prefix_length_le)
                      ultimately have "length H \<le> x' \<and> x' < length H7" by simp
                      with pre lv av chk m mv v Inr p7 show ?thesis
                        by (auto simp: gd_body_st_def step_fresh_def)
                    qed
                  qed
                qed
              qed
            qed
          qed
        qed
      qed
    qed
  qed
qed

lemma gd_final_st_frame:
  assumes "gd_final_st orc np x_0 tol s H = (r, H')"
  shows "prefix H H' \<and> outcome_fresh s H r H'"
proof -
  obtain eh H1 where eh: "extend_history_st orc np (cur_history s) (cur_x s) H = (eh, H1)"
    by (cases "extend_history_st orc np (cur_history s) (cur_x s) H")
  then have p1: "prefix H H1" by (rule extend_history_st_grows)
  obtain ex h where ehp: "eh = (ex, h)" by (cases eh)
  show ?thesis
  proof (cases ex)
    case (Some e)
    with assms eh ehp p1 show ?thesis by (auto simp: gd_final_st_def outcome_fresh_def)
  next
    case None
    obtain t H2 where t: "time_to_stop_st orc np x_0 tol (cur_x s) H1 = (t, H2)"
      by (cases "time_to_stop_st orc np x_0 tol (cur_x s) H1")
    then have "prefix H1 H2" using time_to_stop_st_grows by (rule st_growsD[rotated])
    with p1 have p2: "prefix H H2" by (rule prefix_order.trans)
    then have "length H \<le> length H2" by (rule prefix_length_le)
    with assms eh ehp None t p2 show ?thesis
      by (cases t) (auto simp: gd_final_st_def outcome_fresh_def split: if_splits)
  qed
qed

lemma gd_loop_st_frame:
  "gd_loop_st orc np tool x_0 tol n s H = Some (r, H') \<Longrightarrow>
     prefix H H' \<and> outcome_fresh s H r H'"
proof (induction n arbitrary: s H)
  case 0
  then show ?case using gd_final_st_frame by simp
next
  case (Suc n)
  from Suc.prems obtain st H1 where
    b: "gd_body_st orc np tool x_0 tol s H = Some (st, H1)"
    by (cases "gd_body_st orc np tool x_0 tol s H") auto
  from gd_body_st_frame[OF b] have p1: "prefix H H1" and f1: "step_fresh s H st H1" by simp_all
  from p1 have l1: "length H \<le> length H1" by (rule prefix_length_le)
  show ?case
  proof (cases st)
    case (Stop r')
    with Suc.prems b have "r = r'" "H' = H1" by simp_all
    with p1 f1 Stop l1 show ?thesis
      by (cases r') (auto simp: step_fresh_def outcome_fresh_def)
  next
    case (Continue s')
    with Suc.prems b have "gd_loop_st orc np tool x_0 tol n s' H1 = Some (r, H')" by simp
    from Suc.IH[OF this] have p2: "prefix H1 H'" and f2: "outcome_fresh s' H1 r H'" by simp_all
    from p1 p2 have p: "prefix H H'" by (rule prefix_order.trans)
    from f1 Continue have c: "length H \<le> cur_x s'" "cur_x s' < length H1"
      by (simp_all add: step_fresh_def)
    from f2 c l1 have "outcome_fresh s H r H'"
      by (cases r) (auto simp: outcome_fresh_def)
    with p show ?thesis by simp
  qed
qed

lemma gd_try_st_frame:
  assumes t: "gd_try_st orc np x_0 tol max_iter opts history H = Some (o', H')"
  shows "prefix H H' \<and>
         (case o' of
            Return x m h \<Rightarrow> m \<noteq> ''computational_error'' \<and> length H \<le> x \<and> x < length H'
          | Raise e h \<Rightarrow> True)"
proof (cases "get_line_search_tool np opts")
  case (Inl e)
  with t show ?thesis by (auto simp: gd_try_st_def)
next
  case (Inr tool)
  let ?H1 = "H @ [H ! x_0]"
  let ?s = "gd_init (length H) history :: ('a, nat) gd_state"
  from t Inr have l: "gd_loop_st orc np tool x_0 tol (nat max_iter) ?s ?H1 = Some (o', H')"
    by (simp add: gd_try_st_def st_copy_def st_new_def)
  from gd_loop_st_frame[OF l] have p: "prefix ?H1 H'" and f: "outcome_fresh ?s ?H1 o' H'"
    by simp_all
  have "prefix H ?H1" by simp
  with p have "prefix H H'" using prefix_order.trans by blast
  moreover from f have "case o' of Return x m h \<Rightarrow> m \<noteq> ''computational_error'' \<and>
        length H \<le> x \<and> x < length H' | Raise e h \<Rightarrow> True"
    by (cases o') (auto simp: outcome_fresh_def gd_init_def)
  ultimately show ?thesis by simp
qed

text \<open>
  C10. Whenever \<open>gradient_descent\<close> returns or raises, the store is the store at entry with
  new arrays appended: every array that existed at entry, the caller's \<open>x_0\<close> among them,
  has the contents it had. A point returned with a message other than
  \<open>'computational_error'\<close> is an array allocated during the call (the copy of \<open>x_0\<close> or a
  later iterate), never \<open>x_0\<close> itself; with \<open>'computational_error'\<close> the returned point is
  the caller's \<open>x_0\<close>, unchanged.
\<close>

theorem gradient_descent_st_frame:
  assumes "gradient_descent_st orc np x_0 tol max_iter opts trace H = Some (r, H')"
  shows "prefix H H' \<and> (\<forall>a<length H. H' ! a = H ! a) \<and>
         (case r of
            Inl e \<Rightarrow> True
          | Inr (x, msg, h) \<Rightarrow>
              if msg = ''computational_error'' then x = x_0
              else length H \<le> x \<and> x < length H')"
proof -
  from assms obtain o' where
    t: "gd_try_st orc np x_0 tol max_iter opts (if trace then Some empty_history else None) H =
          Some (o', H')"
    by (auto simp: gradient_descent_st_def split: option.splits outcome.splits if_splits)
  have r: "r = (case o' of Return x m h \<Rightarrow> Inr (x, m, h)
             | Raise e h \<Rightarrow> if e = FloatingPointError then Inr (x_0, ''computational_error'', h)
                            else Inl e)"
    using assms t by (auto simp: gradient_descent_st_def split: outcome.splits if_splits)
  from gd_try_st_frame[OF t] have p: "prefix H H'"
    and f: "case o' of Return x m h \<Rightarrow> m \<noteq> ''computational_error'' \<and>
          length H \<le> x \<and> x < length H' | Raise e h \<Rightarrow> True" by simp_all
  from p have "\<forall>a<length H. H' ! a = H ! a"
    by (auto simp: prefix_def nth_append)
  moreover from f r have "case r of Inl e \<Rightarrow> True
          | Inr (x, msg, h) \<Rightarrow>
              if msg = ''computational_error'' then x = x_0
              else length H \<le> x \<and> x < length H'"
    by (cases o') (auto split: if_splits)
  ultimately show ?thesis using p by simp
qed

lemmas st_run_defs = gradient_descent_st_def gd_try_st_def gd_body_st_def gd_final_st_def
  extend_history_st_def time_to_stop_st_def line_search_st_def st_bind_def st_pure_def
  st_new_def st_smul_def st_vadd_def st_neg_def st_copy_def st_grad_def st_func_def
  st_dot_def st_norm_def get_line_search_tool_def from_dict_def LineSearchTool_init_def
  kwargs_get_def gd_init_def empty_history_def dd_get_def np_exact_simps
  quadratic_oracle_simps mat_vec_def

theorem gradient_descent_st_frame_witness:
  "gradient_descent_st (quadratic_oracle [[1]] [1]) (np_exact search_fails) 0 (1 / 100000) 3
      (PyDict (Some ''Constant'') []) True [[0]] =
     Some (Inr (8, ''success'',
             Some \<lparr>h_time = Some [1, 2], h_func = Some [0, - (1 / 2)],
                   h_grad_norm = Some [1, 0], h_x = Some [1, 8]\<rparr>),
           [[0], [0], [- 1], [- 1], [- 1], [- 1], [1], [1], [1], [0], [- 1], [0]]) \<and>
   prefix [[0 :: real]]
     [[0], [0], [- 1], [- 1], [- 1], [- 1], [1], [1], [1], [0], [- 1], [0]] \<and>
   [[0], [0], [- 1], [- 1], [- 1], [- 1], [1], [1], [1], [0], [- 1], [0]] ! 0 = [0 :: real] \<and>
   length [[0 :: real]] \<le> 8 \<and>
   8 < length [[0 :: real], [0], [- 1], [- 1], [- 1], [- 1], [1], [1], [1], [0], [- 1], [0]]"
proof -
  have run: "gradient_descent_st (quadratic_oracle [[1]] [1]) (np_exact search_fails) 0
      (1 / 100000) 3 (PyDict (Some ''Constant'') []) True [[0]] =
     Some (Inr (8, ''success'',
             Some \<lparr>h_time = Some [1, 2], h_func = Some [0, - (1 / 2)],
                   h_grad_norm = Some [1, 0], h_x = Some [1, 8]\<rparr>),
           [[0], [0], [- 1], [- 1], [- 1], [- 1], [1], [1], [1], [0], [- 1], [0]])"
    by (simp add: st_run_defs Let_def eval_nat_numeral)
  from gradient_descent_st_frame[OF run] run show ?thesis by simp
qed

text \<open>
  The two models agree: when the store model returns or raises, the value model, run on
  the contents of \<open>x_0\<close>, ends the same way, with the arrays the addresses point to.
\<close>

lemma phi_st_val:
  assumes "x < length H" "d < length H"
  shows "fst (phi_st orc np x d a H) = phi orc np (H ! x) (H ! d) a"
  using assms
  by (auto simp: phi_st_def phi_def st_bind_def st_smul_def st_vadd_def st_func_def st_new_def
      bnd_def nth_append split: sum.splits)

lemma phi_derivative_st_val:
  assumes "x < length H" "d < length H"
  shows "fst (phi_derivative_st orc np x d a H) = phi_derivative orc np (H ! x) (H ! d) a"
  using assms
  by (auto simp: phi_derivative_st_def phi_derivative_def st_bind_def st_smul_def st_vadd_def
      st_grad_def st_dot_def st_new_def bnd_def nth_append split: sum.splits)

lemma st_bind_fst:
  "fst (st_bind m f H) =
     (case fst (m H) of Inl e \<Rightarrow> Inl e | Inr a \<Rightarrow> fst (f a (snd (m H))))"
  by (cases "m H") (auto simp: st_bind_def split: sum.splits)

lemma prefix_valid: "prefix H H' \<Longrightarrow> x < length H \<Longrightarrow> x < length H' \<and> H' ! x = H ! x"
  by (auto simp: prefix_def nth_append)

lemma armijo_condition_st_val:
  assumes x: "x < length H" and d: "d < length H"
  shows "fst (armijo_condition_st orc np cc x d a H) =
           armijo_condition orc np cc (H ! x) (H ! d) a"
proof -
  obtain r1 H1 where 1: "phi_st orc np x d a H = (r1, H1)" by (cases "phi_st orc np x d a H")
  have r1: "r1 = phi orc np (H ! x) (H ! d) a" using phi_st_val[OF x d, of orc np a] 1 by simp
  have p1: "prefix H H1" using 1 phi_st_grows by (rule st_growsD[rotated])
  note v1 = prefix_valid[OF p1 x] prefix_valid[OF p1 d]
  obtain r2 H2 where 2: "phi_st orc np x d (np_lit np 0) H1 = (r2, H2)"
    by (cases "phi_st orc np x d (np_lit np 0) H1")
  have r2: "r2 = phi orc np (H ! x) (H ! d) (np_lit np 0)"
    using phi_st_val[of x H1 d orc np "np_lit np 0"] 2 v1 by simp
  have p2: "prefix H1 H2" using 2 phi_st_grows by (rule st_growsD[rotated])
  note v2 = prefix_valid[OF p2 v1(1)[THEN conjunct1]] prefix_valid[OF p2 v1(2)[THEN conjunct1]]
  have r3: "fst (phi_derivative_st orc np x d (np_lit np 0) H2) =
      phi_derivative orc np (H ! x) (H ! d) (np_lit np 0)"
    using phi_derivative_st_val[of x H2 d orc np "np_lit np 0"] v1 v2 by simp
  show ?thesis
    unfolding armijo_condition_st_def armijo_condition_def
    by (simp add: st_bind_fst 1 2 r1[symmetric] r2[symmetric] r3[symmetric] st_pure_def bnd_def
        split: sum.splits)
qed

lemma armijo_while_st_val:
  assumes run: "armijo_while_st orc np cc x d a H = Some (r, H')"
    and x: "x < length H" and d: "d < length H"
  shows "armijo_while orc np cc (H ! x) (H ! d) a = Some r"
proof -
  have "x < length H \<and> d < length H \<longrightarrow>
          armijo_while orc np cc (H ! x) (H ! d) a = Some (fst (r, H'))"
  proof (rule armijo_while_st.raw_induct[where P = "\<lambda>orc np cc x d a H y.
        x < length H \<and> d < length H \<longrightarrow>
          armijo_while orc np cc (H ! x) (H ! d) a = Some (fst y)", OF _ run], goal_cases)
    case (1 w orc np cc x d a H y)
    show ?case
    proof (intro impI)
      assume v: "x < length H \<and> d < length H"
      obtain c H1 where c: "armijo_condition_st orc np cc x d a H = (c, H1)"
        by (cases "armijo_condition_st orc np cc x d a H")
      have cv: "armijo_condition orc np cc (H ! x) (H ! d) a = c"
        using armijo_condition_st_val[of x H d orc np cc a] v c by simp
      have p: "prefix H H1" using c armijo_condition_st_grows by (rule st_growsD[rotated])
      note v1 = prefix_valid[OF p v[THEN conjunct1]] prefix_valid[OF p v[THEN conjunct2]]
      show "armijo_while orc np cc (H ! x) (H ! d) a = Some (fst y)"
      proof (cases c)
        case (Inl e)
        with 1(2) c cv show ?thesis by (subst armijo_while.simps) auto
      next
        case (Inr ok)
        show ?thesis
        proof (cases ok)
          case True
          with 1(2) c cv Inr show ?thesis by (subst armijo_while.simps) auto
        next
          case False
          show ?thesis
          proof (cases "f_div np a (np_lit np 2)")
            case (Inl e)
            with 1(2) c cv \<open>c = Inr ok\<close> False show ?thesis
              by (subst armijo_while.simps) auto
          next
            case (Inr a')
            with 1(2) c \<open>c = Inr ok\<close> False have "w orc np cc x d a' H1 = Some y" by simp
            from 1(1)[OF this] v1 have
              "armijo_while orc np cc (H ! x) (H ! d) a' = Some (fst y)" by simp
            with cv \<open>c = Inr ok\<close> False Inr show ?thesis
              by (subst armijo_while.simps) simp
          qed
        qed
      qed
    qed
  qed
  with x d show ?thesis by simp
qed

lemma line_search_st_val:
  assumes run: "line_search_st orc np tool x d previous_alpha H = Some (r, H')"
    and x: "x < length H" and d: "d < length H"
  shows "line_search orc np tool (H ! x) (H ! d) previous_alpha = Some r"
proof -
  have arm: "\<And>cc alpha0 y. armijo_st orc np cc alpha0 x d previous_alpha H = Some (y, H') \<Longrightarrow>
      armijo orc np cc alpha0 (H ! x) (H ! d) previous_alpha = Some y"
    using x d
    by (auto simp: armijo_st_def armijo_def split: sum.splits dest: armijo_while_st_val)
  show ?thesis
  proof (cases tool)
    case (Wolfe wc1 wc2 walpha0)
    show ?thesis
    proof (cases "scalar_search_wolf2 np (func orc) (grad orc) (H ! x) (H ! d) wc1 wc2")
      case (Inl e)
      with run Wolfe show ?thesis by (simp add: line_search_st_def line_search_def)
    next
      case (Inr sr)
      show ?thesis
      proof (cases sr)
        case ResNone
        with run Wolfe Inr obtain y where
          "armijo_st orc np wc1 walpha0 x d previous_alpha H = Some (y, H')" "r = map_sum id Some y"
          by (auto simp: line_search_st_def)
        with arm Wolfe Inr ResNone show ?thesis by (simp add: line_search_def)
      next
        case (ResTuple a0)
        with run Wolfe Inr show ?thesis by (simp add: line_search_st_def line_search_def)
      qed
    qed
  next
    case (Armijo ac1 aalpha0)
    with run obtain y where
      "armijo_st orc np ac1 aalpha0 x d previous_alpha H = Some (y, H')" "r = map_sum id Some y"
      by (auto simp: line_search_st_def)
    with arm Armijo show ?thesis by (simp add: line_search_def)
  next
    case (Constant cc)
    with run show ?thesis by (simp add: line_search_st_def line_search_def)
  qed
qed

lemma time_to_stop_st_val:
  assumes "x_0 < length H" "x < length H"
  shows "fst (time_to_stop_st orc np x_0 tol x H) = time_to_stop orc np (H ! x_0) tol (H ! x)"
  using assms
  by (auto simp: time_to_stop_st_def time_to_stop_def st_bind_def st_grad_def st_norm_def
      st_pure_def st_new_def bnd_def nth_append split: sum.splits)

lemma deref_history_simps:
  "h_time (deref_history H h) = h_time h"
  "h_func (deref_history H h) = h_func h"
  "h_grad_norm (deref_history H h) = h_grad_norm h"
  "h_x (deref_history H h) = map_option (map (\<lambda>a. H ! a)) (h_x h)"
  by (simp_all add: deref_history_def)

lemma history_valid_prefix:
  assumes "prefix H H'" "history_valid H ho"
  shows "history_valid H' ho \<and> map_option (deref_history H') ho = map_option (deref_history H) ho"
proof (cases ho)
  case None
  then show ?thesis by (simp add: history_valid_def)
next
  case (Some h)
  with assms(2) have v: "\<forall>a \<in> set (dd_get (h_x h)). a < length H"
    by (simp add: history_valid_def)
  have w: "\<forall>a \<in> set (dd_get (h_x h)). a < length H' \<and> H' ! a = H ! a"
    using v prefix_valid[OF assms(1)] by blast
  have "map_option (map (\<lambda>a. H' ! a)) (h_x h) = map_option (map (\<lambda>a. H ! a)) (h_x h)"
  proof (cases "h_x h")
    case None
    then show ?thesis by simp
  next
    case (Some xs)
    with w have "\<forall>a \<in> set xs. H' ! a = H ! a" by (simp add: dd_get_def)
    then have "map (\<lambda>a. H' ! a) xs = map (\<lambda>a. H ! a) xs" by simp
    with Some show ?thesis by simp
  qed
  then have "deref_history H' h = deref_history H h" by (simp add: deref_history_def)
  moreover have "history_valid H' (Some h)" using w by (simp add: history_valid_def)
  ultimately show ?thesis using Some by simp
qed

lemma extend_history_st_unfold:
  "extend_history_st orc np (Some h) x H =
     (case grad orc (H ! x) of
        Inl e \<Rightarrow> ((Some e, Some h), H)
      | Inr g \<Rightarrow>
          (fst (extend_history_st orc np (Some h) x H), H @ [g]))"
  by (auto simp: extend_history_st_def st_grad_def st_new_def Let_def split: sum.splits)

lemma extend_history_st_val:
  assumes run: "extend_history_st orc np ho x H = ((ex, ho'), H')"
    and x: "x < length H" and hv: "history_valid H ho"
  shows "extend_history orc np (map_option (deref_history H) ho) (H ! x) =
           (ex, map_option (deref_history H') ho') \<and> history_valid H' ho'"
proof (cases ho)
  case None
  with run show ?thesis
    by (auto simp: extend_history_st_def extend_history_def history_valid_def)
next
  case (Some h)
  show ?thesis
  proof (cases "grad orc (H ! x)")
    case (Inl e)
    with run Some hv show ?thesis
      by (auto simp: extend_history_st_def extend_history_def st_grad_def st_new_def)
  next
    case g: (Inr g)
    let ?H1 = "H @ [g]"
    have p: "prefix H ?H1" by simp
    from history_valid_prefix[OF p hv] Some have
      hv1: "history_valid ?H1 (Some h)" and dh: "deref_history ?H1 h = deref_history H h"
      by simp_all
    have x1: "?H1 ! x = H ! x" using x by (simp add: nth_append)
    have g1: "?H1 ! length H = g" by simp
    have H': "H' = ?H1" using run Some g extend_history_st_unfold[of orc np h x H] by simp
    have v0: "\<forall>a \<in> set (dd_get (h_x h)). a < length H"
      using hv Some by (simp add: history_valid_def)
    then have v1: "\<forall>a \<in> set (dd_get (h_x h)). a < Suc (length H)" by auto
    note v = v0 v1
    have sg: "st_grad orc x H = (Inr (length H), ?H1)"
      using g by (simp add: st_grad_def st_new_def)
    show ?thesis
    proof (cases "func orc (H ! x)")
      case (Inl e)
      with run Some g sg x1 v show ?thesis
        unfolding H'
        by (auto simp: extend_history_st_def extend_history_def Let_def deref_history_def
            dh[unfolded deref_history_def, simplified] history_valid_def dd_get_def)
    next
      case f: (Inr f)
      show ?thesis
      proof (cases "np_norm np g")
        case (Inl e)
        with run Some g sg x1 g1 f v show ?thesis
          unfolding H'
          by (auto simp: extend_history_st_def extend_history_def Let_def deref_history_def
              dh[unfolded deref_history_def, simplified] history_valid_def dd_get_def)
      next
        case n: (Inr n)
        show ?thesis
        proof (cases "np_size np (H ! x) \<le> 2")
          case True
          with run Some g sg x1 g1 f n v x show ?thesis
            unfolding H'
            by (auto simp: extend_history_st_def extend_history_def Let_def deref_history_def
                dh[unfolded deref_history_def, simplified] history_valid_def dd_get_def
                nth_append split: option.splits)
        next
          case False
          with run Some g sg x1 g1 f n v show ?thesis
            unfolding H'
            by (auto simp: extend_history_st_def extend_history_def Let_def deref_history_def
                dh[unfolded deref_history_def, simplified] history_valid_def dd_get_def)
        qed
      qed
    qed
  qed
qed

lemma st_prims_unfold:
  "st_grad orc x H =
     (case grad orc (H ! x) of Inl e \<Rightarrow> (Inl e, H) | Inr v \<Rightarrow> (Inr (length H), H @ [v]))"
  "st_neg np g H =
     (case np_neg np (H ! g) of Inl e \<Rightarrow> (Inl e, H) | Inr v \<Rightarrow> (Inr (length H), H @ [v]))"
  "st_smul np a d H =
     (case np_smul np a (H ! d) of Inl e \<Rightarrow> (Inl e, H) | Inr v \<Rightarrow> (Inr (length H), H @ [v]))"
  "st_vadd np u w H =
     (case np_vadd np (H ! u) (H ! w) of Inl e \<Rightarrow> (Inl e, H)
      | Inr v \<Rightarrow> (Inr (length H), H @ [v]))"
  by (simp_all add: st_grad_def st_neg_def st_smul_def st_vadd_def st_new_def)

lemma deref_valid_prefix:
  assumes "prefix H H'" "history_valid H h" "x < length H"
  shows "history_valid H' h" "map_option (deref_history H') h = map_option (deref_history H) h"
    "x < length H'" "H' ! x = H ! x"
  using history_valid_prefix[OF assms(1,2)] prefix_valid[OF assms(1,3)] by simp_all

lemma gd_body_st_val:
  assumes run: "gd_body_st orc np tool x_0 tol s H = Some (st, H')"
    and x0: "x_0 < length H" and sv: "state_valid H s"
  shows "gd_body orc np tool (H ! x_0) tol (deref_state H s) = Some (deref_step H' st) \<and>
         step_valid H' st"
proof -
  let ?x = "cur_x s"
  from sv have xv: "?x < length H" and hv: "history_valid H (cur_history s)"
    by (simp_all add: state_valid_def)
  have ds: "cur_x (deref_state H s) = H ! ?x" "cur_a (deref_state H s) = cur_a s"
    "cur_history (deref_state H s) = map_option (deref_history H) (cur_history s)"
    by (simp_all add: deref_state_def)
  obtain eh H1 where eh: "extend_history_st orc np (cur_history s) ?x H = (eh, H1)"
    by (cases "extend_history_st orc np (cur_history s) ?x H")
  then have p1: "prefix H H1" by (rule extend_history_st_grows)
  obtain ex h where ehp: "eh = (ex, h)" by (cases eh)
  from extend_history_st_val[OF eh[unfolded ehp] xv hv] have
    peh: "extend_history orc np (map_option (deref_history H) (cur_history s)) (H ! ?x) =
            (ex, map_option (deref_history H1) h)"
    and hv1: "history_valid H1 h" by simp_all
  note a1 = prefix_valid[OF p1 xv] prefix_valid[OF p1 x0]
  show ?thesis
  proof (cases ex)
    case (Some e)
    with run eh ehp have "st = Stop (Raise e h)" "H' = H1" by (auto simp: gd_body_st_def)
    with Some peh hv1 show ?thesis
      by (simp add: gd_body_def ds deref_step_def deref_outcome_def step_valid_def
          outcome_valid_def)
  next
    case None
    note ex = this
    obtain t H2 where t: "time_to_stop_st orc np x_0 tol ?x H1 = (t, H2)"
      by (cases "time_to_stop_st orc np x_0 tol ?x H1")
    then have p12: "prefix H1 H2" using time_to_stop_st_grows by (rule st_growsD[rotated])
    have pt: "time_to_stop orc np (H ! x_0) tol (H ! ?x) = t"
      using time_to_stop_st_val[of x_0 H1 ?x orc np tol] t a1 by simp
    from p1 p12 have p2: "prefix H H2" by (rule prefix_order.trans)
    note a2 = prefix_valid[OF p2 xv] prefix_valid[OF p2 x0]
    note h2 = deref_valid_prefix(1,2)[OF p12 hv1 a1(1)[THEN conjunct1]]
    show ?thesis
    proof (cases t)
      case (Inl e)
      with run eh ehp ex t have "st = Stop (Raise e h)" "H' = H2" by (auto simp: gd_body_st_def)
      with Inl ex peh pt h2 show ?thesis
        by (simp add: gd_body_def ds deref_step_def deref_outcome_def step_valid_def
            outcome_valid_def)
    next
      case (Inr stop)
      note tv = this
      show ?thesis
      proof (cases stop)
        case True
        with run eh ehp ex t tv have "st = Stop (Return ?x ''success'' h)" "H' = H2"
          by (auto simp: gd_body_st_def)
        with True tv ex peh pt h2 a2 show ?thesis
          by (simp add: gd_body_def ds deref_step_def deref_outcome_def step_valid_def
              outcome_valid_def)
      next
        case False
        note stop = this
        note pre2 = run eh ehp ex t tv stop
        note pur2 = ex peh pt tv stop
        show ?thesis
        proof (cases "grad orc (H ! ?x)")
          case (Inl e)
          with a2 have "st_grad orc ?x H2 = (Inl e, H2)" by (simp add: st_prims_unfold)
          with pre2 have "st = Stop (Raise e h)" "H' = H2" by (auto simp: gd_body_st_def)
          with Inl pur2 h2 show ?thesis
            by (simp add: gd_body_def ds deref_step_def deref_outcome_def step_valid_def
                outcome_valid_def)
        next
          case (Inr gv)
          note g = this
          let ?H3 = "H2 @ [gv]"
          have sg: "st_grad orc ?x H2 = (Inr (length H2), ?H3)"
            using g a2 by (simp add: st_prims_unfold)
          have p3: "prefix H ?H3" using p2 by (auto simp: prefix_def)
          have p13: "prefix H1 ?H3" using p12 by (auto simp: prefix_def)
          note h3 = deref_valid_prefix(1,2)[OF p13 hv1 a1(1)[THEN conjunct1]]
          show ?thesis
          proof (cases "np_neg np gv")
            case (Inl e)
            then have "st_neg np (length H2) ?H3 = (Inl e, ?H3)" by (simp add: st_prims_unfold)
            with pre2 sg have "st = Stop (Raise e h)" "H' = ?H3" by (auto simp: gd_body_st_def)
            with Inl g pur2 h3 show ?thesis
              by (simp add: gd_body_def ds deref_step_def deref_outcome_def step_valid_def
                  outcome_valid_def)
          next
            case (Inr dv)
            note d = this
            let ?d = "Suc (length H2)"
            let ?H4 = "H2 @ [gv, dv]"
            have sd: "st_neg np (length H2) ?H3 = (Inr ?d, ?H4)"
              using d by (simp add: st_prims_unfold)
            have p4: "prefix H ?H4" using p2 by (auto simp: prefix_def)
            have p14: "prefix H1 ?H4" using p12 by (auto simp: prefix_def)
            note a4 = prefix_valid[OF p4 xv]
            have d4: "?d < length ?H4" "?H4 ! ?d = dv" by (simp_all add: nth_append)
            from pre2 sg sd obtain ls H5 where
              ls: "line_search_st orc np tool ?x ?d (cur_a s) ?H4 = Some (ls, H5)"
              by (cases "line_search_st orc np tool ?x ?d (cur_a s) ?H4")
                 (auto simp: gd_body_st_def)
            then have p45: "prefix ?H4 H5" by (rule line_search_st_grows)
            have pls: "line_search orc np tool (H ! ?x) dv (cur_a s) = Some ls"
              using line_search_st_val[OF ls a4[THEN conjunct1] d4(1)] a4 d4(2) by simp
            from p4 p45 have p5: "prefix H H5" by (rule prefix_order.trans)
            from p14 p45 have p15: "prefix H1 H5" by (rule prefix_order.trans)
            note a5 = prefix_valid[OF p5 xv]
            note d5 = prefix_valid[OF p45 d4(1)]
            note h5 = deref_valid_prefix(1,2)[OF p15 hv1 a1(1)[THEN conjunct1]]
            note pre5 = pre2 sg sd ls
            note pur5 = pur2 g d pls
            show ?thesis
            proof (cases ls)
              case (Inl e)
              with pre5 have "st = Stop (Raise e h)" "H' = H5" by (auto simp: gd_body_st_def)
              with Inl pur5 h5 show ?thesis
                by (simp add: gd_body_def ds deref_step_def deref_outcome_def step_valid_def
                    outcome_valid_def)
            next
              case (Inr ao)
              note lv = this
              show ?thesis
              proof (cases ao)
                case None
                with pre5 lv have "st = Stop (Return ?x ''a_k computational_error'' h)" "H' = H5"
                  by (auto simp: gd_body_st_def)
                with None lv pur5 h5 a5 show ?thesis
                  by (simp add: gd_body_def ds deref_step_def deref_outcome_def step_valid_def
                      outcome_valid_def)
              next
                case (Some a)
                note av = this
                have chk: "np_any_isinf np (H5 ! ?x) = np_any_isinf np (H ! ?x)"
                  "np_any_isinf np (H5 ! ?d) = np_any_isinf np dv"
                  using a5 d5 d4(2) by simp_all
                show ?thesis
                proof (cases "np_isnan np a \<or> np_any_isinf np (H ! ?x) \<or> np_any_isinf np dv")
                  case True
                  with pre5 lv av chk obtain m where
                    "st = Stop (Return ?x m h)" "H' = H5"
                    "gd_body orc np tool (H ! x_0) tol (deref_state H s) =
                       Some (Stop (Return (H ! ?x) m (map_option (deref_history H1) h)))"
                    using pur5
                    by (auto simp: gd_body_st_def gd_body_def ds split: if_splits)
                  with h5 a5 show ?thesis
                    by (simp add: deref_step_def deref_outcome_def step_valid_def
                        outcome_valid_def)
                next
                  case False
                  note ok = this
                  show ?thesis
                  proof (cases "np_smul np a dv")
                    case (Inl e)
                    then have "st_smul np a ?d H5 = (Inl e, H5)"
                      using d5 d4(2) by (simp add: st_prims_unfold)
                    with pre5 lv av chk ok have "st = Stop (Raise e h)" "H' = H5"
                      by (auto simp: gd_body_st_def)
                    with Inl lv av ok pur5 h5 show ?thesis
                      by (simp add: gd_body_def ds deref_step_def deref_outcome_def
                          step_valid_def outcome_valid_def)
                  next
                    case (Inr adv)
                    note m = this
                    let ?H6 = "H5 @ [adv]"
                    have sm: "st_smul np a ?d H5 = (Inr (length H5), ?H6)"
                      using m d5 d4(2) by (simp add: st_prims_unfold)
                    have x6: "?H6 ! ?x = H ! ?x" "?H6 ! length H5 = adv"
                      using a5 by (simp_all add: nth_append)
                    have p16: "prefix H1 ?H6" using p15 by (auto simp: prefix_def)
                    note h6 = deref_valid_prefix(1,2)[OF p16 hv1 a1(1)[THEN conjunct1]]
                    show ?thesis
                    proof (cases "np_vadd np (H ! ?x) adv")
                      case (Inl e)
                      then have "st_vadd np ?x (length H5) ?H6 = (Inl e, ?H6)"
                        using x6 by (simp add: st_prims_unfold)
                      with pre5 lv av chk ok sm have "st = Stop (Raise e h)" "H' = ?H6"
                        by (auto simp: gd_body_st_def)
                      with Inl lv av ok m pur5 h6 show ?thesis
                        by (simp add: gd_body_def ds deref_step_def deref_outcome_def
                            step_valid_def outcome_valid_def)
                    next
                      case (Inr xv')
                      let ?H7 = "H5 @ [adv, xv']"
                      have sa: "st_vadd np ?x (length H5) ?H6 = (Inr (Suc (length H5)), ?H7)"
                        using Inr x6 by (simp add: st_prims_unfold)
                      have p17: "prefix H1 ?H7" using p15 by (auto simp: prefix_def)
                      note h7 = deref_valid_prefix(1,2)[OF p17 hv1 a1(1)[THEN conjunct1]]
                      from pre5 lv av chk ok sm sa have
                        st: "st = Continue \<lparr>cur_x = Suc (length H5), cur_a = Some a,
                                             cur_history = h\<rparr>" "H' = ?H7"
                        by (auto simp: gd_body_st_def)
                      have "?H7 ! Suc (length H5) = xv'" by (simp add: nth_append)
                      with st Inr lv av ok m pur5 h7 show ?thesis
                        by (simp add: gd_body_def ds deref_step_def deref_state_def
                            step_valid_def state_valid_def)
                    qed
                  qed
                qed
              qed
            qed
          qed
        qed
      qed
    qed
  qed
qed

lemma gd_final_st_val:
  assumes run: "gd_final_st orc np x_0 tol s H = (r, H')"
    and x0: "x_0 < length H" and sv: "state_valid H s"
  shows "gd_final orc np (H ! x_0) tol (deref_state H s) = deref_outcome H' r \<and>
         outcome_valid H' r"
proof -
  let ?x = "cur_x s"
  from sv have xv: "?x < length H" and hv: "history_valid H (cur_history s)"
    by (simp_all add: state_valid_def)
  have ds: "cur_x (deref_state H s) = H ! ?x"
    "cur_history (deref_state H s) = map_option (deref_history H) (cur_history s)"
    by (simp_all add: deref_state_def)
  obtain eh H1 where eh: "extend_history_st orc np (cur_history s) ?x H = (eh, H1)"
    by (cases "extend_history_st orc np (cur_history s) ?x H")
  then have p1: "prefix H H1" by (rule extend_history_st_grows)
  obtain ex h where ehp: "eh = (ex, h)" by (cases eh)
  from extend_history_st_val[OF eh[unfolded ehp] xv hv] have
    peh: "extend_history orc np (map_option (deref_history H) (cur_history s)) (H ! ?x) =
            (ex, map_option (deref_history H1) h)"
    and hv1: "history_valid H1 h" by simp_all
  note a1 = prefix_valid[OF p1 xv] prefix_valid[OF p1 x0]
  show ?thesis
  proof (cases ex)
    case (Some e)
    with run eh ehp have "r = Raise e h" "H' = H1" by (auto simp: gd_final_st_def)
    with Some peh hv1 show ?thesis
      by (simp add: gd_final_def ds deref_outcome_def outcome_valid_def)
  next
    case None
    obtain t H2 where t: "time_to_stop_st orc np x_0 tol ?x H1 = (t, H2)"
      by (cases "time_to_stop_st orc np x_0 tol ?x H1")
    then have p12: "prefix H1 H2" using time_to_stop_st_grows by (rule st_growsD[rotated])
    have pt: "time_to_stop orc np (H ! x_0) tol (H ! ?x) = t"
      using time_to_stop_st_val[of x_0 H1 ?x orc np tol] t a1 by simp
    from p1 p12 have p2: "prefix H H2" by (rule prefix_order.trans)
    note a2 = prefix_valid[OF p2 xv]
    note h2 = deref_valid_prefix(1,2)[OF p12 hv1 a1(1)[THEN conjunct1]]
    from run eh ehp None t have
      r: "r = (case t of Inl e \<Rightarrow> Raise e h
               | Inr stop \<Rightarrow> if stop then Return ?x ''success'' h
                             else Return ?x ''iterations_exceeded'' h)" "H' = H2"
      by (auto simp: gd_final_st_def split: sum.splits if_splits)
    with None peh pt h2 a2 show ?thesis
      by (cases t) (auto simp: gd_final_def ds deref_outcome_def outcome_valid_def)
  qed
qed

lemma gd_loop_st_val:
  "gd_loop_st orc np tool x_0 tol n s H = Some (r, H') \<Longrightarrow> x_0 < length H \<Longrightarrow>
   state_valid H s \<Longrightarrow>
     gd_loop orc np tool (H ! x_0) tol n (deref_state H s) = Some (deref_outcome H' r) \<and>
     outcome_valid H' r"
proof (induction n arbitrary: s H)
  case 0
  then show ?case using gd_final_st_val[of orc np x_0 tol s H r H'] by simp
next
  case (Suc n)
  from Suc.prems(1) obtain st H1 where
    b: "gd_body_st orc np tool x_0 tol s H = Some (st, H1)"
    by (cases "gd_body_st orc np tool x_0 tol s H") auto
  from gd_body_st_val[OF b Suc.prems(2,3)] have
    pb: "gd_body orc np tool (H ! x_0) tol (deref_state H s) = Some (deref_step H1 st)"
    and sv1: "step_valid H1 st" by simp_all
  from gd_body_st_frame[OF b] have p1: "prefix H H1" by simp
  note x1 = prefix_valid[OF p1 Suc.prems(2)]
  show ?case
  proof (cases st)
    case (Stop r')
    with Suc.prems(1) b have "r = r'" "H' = H1" by simp_all
    with pb sv1 Stop show ?thesis by (simp add: deref_step_def step_valid_def)
  next
    case (Continue s')
    with Suc.prems(1) b have l: "gd_loop_st orc np tool x_0 tol n s' H1 = Some (r, H')" by simp
    from sv1 Continue have "state_valid H1 s'" by (simp add: step_valid_def)
    from Suc.IH[OF l x1[THEN conjunct1] this] x1 have
      "gd_loop orc np tool (H ! x_0) tol n (deref_state H1 s') = Some (deref_outcome H' r)"
      "outcome_valid H' r" by simp_all
    with pb Continue show ?thesis by (simp add: deref_step_def)
  qed
qed

lemma gradient_descent_st_val:
  assumes run: "gradient_descent_st orc np x_0 tol max_iter opts trace H = Some (r, H')"
    and x0: "x_0 < length H"
  shows "gradient_descent orc np (H ! x_0) tol max_iter opts trace =
           Some (map_sum id (\<lambda>(x, m, h). (H' ! x, m, map_option (deref_history H') h)) r)"
proof -
  let ?hist = "if trace then Some empty_history else None :: ('a, nat) history option"
  let ?vhist = "if trace then Some empty_history else None :: ('a, 'b) history option"
  from run obtain o' where
    t: "gd_try_st orc np x_0 tol max_iter opts ?hist H = Some (o', H')"
    by (auto simp: gradient_descent_st_def split: option.splits outcome.splits if_splits)
  have r: "r = (case o' of Return x m h \<Rightarrow> Inr (x, m, h)
             | Raise e h \<Rightarrow> if e = FloatingPointError then Inr (x_0, ''computational_error'', h)
                            else Inl e)"
    using run t by (auto simp: gradient_descent_st_def split: outcome.splits if_splits)
  have dh: "map_option (deref_history K) ?hist = ?vhist" for K :: "'b store"
    by (simp add: deref_history_def empty_history_def)
  have pref: "prefix H H'" using gd_try_st_frame[OF t] by simp
  note x0' = prefix_valid[OF pref x0]
  have "gd_try orc np (H ! x_0) tol max_iter opts ?vhist = Some (deref_outcome H' o')"
  proof (cases "get_line_search_tool np opts")
    case (Inl e)
    with t have "o' = Raise e ?hist" by (auto simp: gd_try_st_def)
    with Inl dh[of H'] show ?thesis by (simp add: gd_try_def deref_outcome_def)
  next
    case (Inr tool)
    let ?H1 = "H @ [H ! x_0]"
    let ?s = "gd_init (length H) ?hist :: ('a, nat) gd_state"
    from t Inr have l: "gd_loop_st orc np tool x_0 tol (nat max_iter) ?s ?H1 = Some (o', H')"
      by (simp add: gd_try_st_def st_copy_def st_new_def)
    have v: "x_0 < length ?H1" "?H1 ! x_0 = H ! x_0" using x0 by (simp_all add: nth_append)
    have sv: "state_valid ?H1 ?s"
      by (simp add: state_valid_def gd_init_def history_valid_def empty_history_def dd_get_def)
    have d: "deref_state ?H1 ?s = gd_init (H ! x_0) ?vhist"
      using dh[of ?H1] by (simp add: deref_state_def gd_init_def)
    from gd_loop_st_val[OF l v(1) sv] v(2) d Inr show ?thesis by (simp add: gd_try_def)
  qed
  then show ?thesis
    using r x0' by (cases o') (auto simp: gradient_descent_def deref_outcome_def)
qed

end
